theory Spec2Isabelle
  imports Complex_Main "HOL-Library.Word"
begin

section \<open>Tiny Ray Caster (Tiny\_RR\_005.ino): arithmetic of the target\<close>

text \<open>
  The sketch runs on an Arduino Pro Micro. Every \<^verbatim>\<open>float\<close> (and \<^verbatim>\<open>double\<close>) there is an
  IEEE binary32 number. The type \<open>fl\<close> holds the values of a float: the finite ones
  (\<open>Fin x\<close>, with \<open>x\<close> the real number the float denotes), the two infinities and NaN.
  Every arithmetic operation of the sketch is the exact operation followed by \<open>rnd\<close>:
  rounding to the nearest binary32 value, ties to even, and to an infinity when the
  rounded magnitude reaches \<open>2^128\<close>.

  \<open>exp_search\<close> finds the binade of a magnitude: the largest exponent \<open>e\<close> in
  \<open>-126..127\<close> with \<open>2^e \<le> a\<close>, and \<open>-126\<close> for the subnormal range. \<open>f32\<close> rounds a real
  number to 24 significant bits in that binade; it does not look at the range, which is
  the part of \<open>rnd\<close>.
\<close>

fun exp_search :: "nat \<Rightarrow> int \<Rightarrow> real \<Rightarrow> int" where
  "exp_search 0 e a = e"
| "exp_search (Suc n) e a = (if 2 powi e \<le> a then e else exp_search n (e - 1) a)"

definition f32_exp :: "real \<Rightarrow> int" where
  "f32_exp x = exp_search 253 127 \<bar>x\<bar>"

definition round_even :: "real \<Rightarrow> int" where
  "round_even y = (let f = \<lfloor>y\<rfloor>; d = y - of_int f in
     if d < 1 / 2 then f else if 1 / 2 < d then f + 1 else if even f then f else f + 1)"

definition f32 :: "real \<Rightarrow> real" where
  "f32 x = (let u = 2 powi (f32_exp x - 23) in u * of_int (round_even (x / u)))"

datatype fl = Fin real | PInf | NInf | NaN

definition rnd :: "real \<Rightarrow> fl" where
  "rnd x = (let y = f32 x in
     if 2 ^ 128 \<le> y then PInf else if y \<le> - (2 ^ 128) then NInf else Fin y)"

text \<open>
  The operations of IEEE 754 on these values. The sign of a zero is not modelled: it
  shows only in a division by zero, and no division of the sketch below has a divisor
  that can be zero (the divisors are the constants 180, 2 and \<open>screen_height\<close>, the loop
  variable \<^verbatim>\<open>wall_height\<close> inside its loop, and a radius greater than 1).
\<close>

fun fneg :: "fl \<Rightarrow> fl" where
  "fneg (Fin x) = Fin (- x)"
| "fneg PInf = NInf"
| "fneg NInf = PInf"
| "fneg NaN = NaN"

fun fadd :: "fl \<Rightarrow> fl \<Rightarrow> fl" where
  "fadd (Fin x) (Fin y) = rnd (x + y)"
| "fadd NaN b = NaN"
| "fadd a NaN = NaN"
| "fadd PInf NInf = NaN"
| "fadd NInf PInf = NaN"
| "fadd PInf b = PInf"
| "fadd a PInf = PInf"
| "fadd NInf b = NInf"
| "fadd a NInf = NInf"

definition fsub :: "fl \<Rightarrow> fl \<Rightarrow> fl" where
  "fsub a b = fadd a (fneg b)"

fun fmul :: "fl \<Rightarrow> fl \<Rightarrow> fl" where
  "fmul (Fin x) (Fin y) = rnd (x * y)"
| "fmul NaN b = NaN"
| "fmul a NaN = NaN"
| "fmul (Fin x) PInf = (if x = 0 then NaN else if 0 < x then PInf else NInf)"
| "fmul (Fin x) NInf = (if x = 0 then NaN else if 0 < x then NInf else PInf)"
| "fmul PInf (Fin y) = (if y = 0 then NaN else if 0 < y then PInf else NInf)"
| "fmul NInf (Fin y) = (if y = 0 then NaN else if 0 < y then NInf else PInf)"
| "fmul PInf PInf = PInf"
| "fmul PInf NInf = NInf"
| "fmul NInf PInf = NInf"
| "fmul NInf NInf = PInf"

fun fdiv :: "fl \<Rightarrow> fl \<Rightarrow> fl" where
  "fdiv (Fin x) (Fin y) =
     (if y = 0 then (if x = 0 then NaN else if 0 < x then PInf else NInf) else rnd (x / y))"
| "fdiv NaN b = NaN"
| "fdiv a NaN = NaN"
| "fdiv (Fin x) PInf = Fin 0"
| "fdiv (Fin x) NInf = Fin 0"
| "fdiv PInf (Fin y) = (if 0 \<le> y then PInf else NInf)"
| "fdiv NInf (Fin y) = (if 0 \<le> y then NInf else PInf)"
| "fdiv PInf PInf = NaN"
| "fdiv PInf NInf = NaN"
| "fdiv NInf PInf = NaN"
| "fdiv NInf NInf = NaN"

text \<open>The comparisons \<^verbatim>\<open><\<close> and \<^verbatim>\<open><=\<close>; every comparison with NaN is false.\<close>

fun flt :: "fl \<Rightarrow> fl \<Rightarrow> bool" where
  "flt (Fin x) (Fin y) \<longleftrightarrow> x < y"
| "flt NaN b \<longleftrightarrow> False"
| "flt a NaN \<longleftrightarrow> False"
| "flt PInf b \<longleftrightarrow> False"
| "flt a NInf \<longleftrightarrow> False"
| "flt NInf b \<longleftrightarrow> True"
| "flt a PInf \<longleftrightarrow> True"

fun fle :: "fl \<Rightarrow> fl \<Rightarrow> bool" where
  "fle (Fin x) (Fin y) \<longleftrightarrow> x \<le> y"
| "fle NaN b \<longleftrightarrow> False"
| "fle a NaN \<longleftrightarrow> False"
| "fle NInf b \<longleftrightarrow> True"
| "fle a PInf \<longleftrightarrow> True"
| "fle PInf b \<longleftrightarrow> False"
| "fle a NInf \<longleftrightarrow> False"

text \<open>
  A real number is a binary32 value when rounding leaves it alone and it is in range.
\<close>

definition is_f32 :: "real \<Rightarrow> bool" where
  "is_f32 x \<longleftrightarrow> f32 x = x \<and> \<bar>x\<bar> < 2 ^ 128"

text \<open>
  The cast \<^verbatim>\<open>(int)x\<close> of a float truncates towards zero. C leaves the cast undefined
  beyond the range of \<^verbatim>\<open>int\<close>, for an infinity and for NaN: \<open>to_int\<close> is the truncation of
  the real number in the first case and 0 in the other two.
\<close>

definition trunc :: "real \<Rightarrow> int" where
  "trunc x = (if 0 \<le> x then \<lfloor>x\<rfloor> else \<lceil>x\<rceil>)"

fun to_int :: "fl \<Rightarrow> int" where
  "to_int (Fin x) = trunc x"
| "to_int PInf = 0"
| "to_int NInf = 0"
| "to_int NaN = 0"

text \<open>The remainder \<^verbatim>\<open>a % b\<close> of C has the sign of \<open>a\<close>.\<close>

definition c_rem :: "int \<Rightarrow> int \<Rightarrow> int" where
  "c_rem a b = sgn a * (\<bar>a\<bar> mod \<bar>b\<bar>)"

text \<open>
  Two angles in degrees are congruent modulo 360 when they are finite and differ by
  whole turns.
\<close>

fun cong360 :: "fl \<Rightarrow> fl \<Rightarrow> bool" where
  "cong360 (Fin a) (Fin b) \<longleftrightarrow> (let q = (a - b) / 360 in of_int \<lfloor>q\<rfloor> = q)"
| "cong360 a b \<longleftrightarrow> False"

section \<open>Constants and global variables\<close>

text \<open>
  An \<^verbatim>\<open>int\<close> of the target has 16 bits, so its conversion to \<^verbatim>\<open>float\<close> is exact: the
  float of the integer \<open>n\<close> is \<open>Fin (of_int n)\<close>.
\<close>

definition SCREEN_WIDTH :: int where "SCREEN_WIDTH = 128"
definition SCREEN_HEIGHT :: int where "SCREEN_HEIGHT = 64"
definition MAP_X_DIM :: int where "MAP_X_DIM = 10"
definition MAP_Y_DIM :: int where "MAP_Y_DIM = 10"
definition screen_width :: int where "screen_width = SCREEN_WIDTH"
definition screen_height :: int where "screen_height = SCREEN_HEIGHT"
definition NUM_SLIVERS :: int where "NUM_SLIVERS = screen_width"
definition FOV :: fl where "FOV = Fin 90"
definition theta_inc :: fl where "theta_inc = fdiv FOV (Fin (of_int NUM_SLIVERS))"
definition WALL_TEXTURE_X_DIM :: int where "WALL_TEXTURE_X_DIM = 3"
definition WALL_TEXTURE_Y_DIM :: int where "WALL_TEXTURE_Y_DIM = 3"
definition NUM_WALL_TEXTURES :: int where "NUM_WALL_TEXTURES = 20"
definition RR_PIN_SOUND :: int where "RR_PIN_SOUND = 10"

text \<open>Arduino's \<^verbatim>\<open>PI\<close> macro, a decimal literal, read as a binary32 constant.\<close>

definition PI :: fl where
  "PI = rnd (31415926535897932384626433832795 / 10 ^ 31)"

text \<open>
  The globals of the sketch that the movement controller and the ray caster touch.
  \<^item> \<open>my_map\<close> is \<^verbatim>\<open>char my_map[MAP_X_DIM][MAP_Y_DIM]\<close>, read as \<open>my_map s x y\<close>. C does not
    check an index: at a pair outside \<open>[0,10) \<times> [0,10)\<close> the function says what the
    memory beside the array holds, and every theorem holds for every such content.
  \<^item> \<open>ray_d\<close> is the array \<^verbatim>\<open>d\<close> local to \<^verbatim>\<open>ray_cast\<close>, unset until written.
  \<^item> \<open>pixels\<close>, \<open>serial\<close> and \<open>tones\<close> are the calls made to the display, the serial port
    and the speaker, oldest first.
  \<^item> \<open>map_reads\<close>, \<open>samples\<close> and \<open>slivers\<close> are traces, not variables of the sketch:
    the index pairs at which \<open>my_map\<close> was read, the iterations of the scan loop of
    \<^verbatim>\<open>ray_cast\<close> (column, wall height, radius), and the calls of \<^verbatim>\<open>render_sliver\<close>
    (column, wall height, colour).
\<close>

record state =
  my_map :: "int \<Rightarrow> int \<Rightarrow> 8 word"
  wall_textures :: "int \<Rightarrow> int \<Rightarrow> int \<Rightarrow> 8 word"
  player_x :: fl
  player_y :: fl
  player_bearing :: fl
  random_seed :: int
  ray_d :: "int \<rightharpoonup> fl"
  pixels :: "(int \<times> int \<times> bool) list"
  serial :: "string list"
  tones :: "(int \<times> int \<times> int) list"
  map_reads :: "(int \<times> int) list"
  samples :: "(int \<times> real \<times> fl) list"
  slivers :: "(int \<times> fl \<times> fl) list"

text \<open>
  The state the initialisers of the globals give: an all-zero map and texture bank, the
  player in the middle of the map, looking along bearing 270.
\<close>

definition initial_state :: state where
  "initial_state = \<lparr>
     my_map = (\<lambda>x y. 0),
     wall_textures = (\<lambda>i x y. 0),
     player_x = fadd (fdiv (Fin (of_int MAP_X_DIM)) (Fin 2)) (Fin (1 / 2)),
     player_y = fadd (fdiv (Fin (of_int MAP_Y_DIM)) (Fin 2)) (Fin (1 / 2)),
     player_bearing = Fin 270,
     random_seed = 0,
     ray_d = Map.empty,
     pixels = [],
     serial = [],
     tones = [],
     map_reads = [],
     samples = [],
     slivers = [] \<rparr>"

definition player_walk_speed :: fl where
  "player_walk_speed = rnd (1 / 10)"

definition player_turn_speed :: fl where
  "player_turn_speed = fmul (Fin 16) theta_inc"

definition in_map :: "int \<times> int \<Rightarrow> bool" where
  "in_map p \<longleftrightarrow> 0 \<le> fst p \<and> fst p < MAP_X_DIM \<and> 0 \<le> snd p \<and> snd p < MAP_Y_DIM"

section \<open>Movement controller\<close>

text \<open>
  \<^verbatim>\<open>cos\<close> and \<^verbatim>\<open>sin\<close> are the C library's; the functions that call them take them as the
  parameters \<open>cs\<close> and \<open>sn\<close>. The condition of \<^verbatim>\<open>step_forward\<close> is a chain of \<^verbatim>\<open>&&\<close> whose
  first operand reads \<open>my_map\<close>, so the read happens on every call.
\<close>

definition step_forward :: "(fl \<Rightarrow> fl) \<Rightarrow> (fl \<Rightarrow> fl) \<Rightarrow> fl \<Rightarrow> state \<Rightarrow> state" where
  "step_forward cs sn distance s =
     (let theta_radians = fdiv (fmul (player_bearing s) PI) (Fin 180);
          delta_x = fmul distance (cs theta_radians);
          delta_y = fmul distance (sn theta_radians);
          player_x_new = fadd (player_x s) delta_x;
          player_y_new = fadd (player_y s) delta_y;
          s1 = s\<lparr>map_reads := map_reads s @ [(to_int player_x_new, to_int player_y_new)]\<rparr>
      in if my_map s (to_int player_x_new) (to_int player_y_new) = 0 \<and>
            flt (Fin 0) player_x_new \<and>
            flt (Fin 0) player_y_new \<and>
            flt player_x_new (Fin (of_int MAP_X_DIM)) \<and>
            flt player_y_new (Fin (of_int MAP_Y_DIM))
         then s1\<lparr>player_x := fadd (player_x s) delta_x,
                 player_y := fadd (player_y s) delta_y\<rparr>
         else s1\<lparr>serial := serial s @ [''Attempting to walk through wall... I can't do it!''],
                 tones := tones s @ [(RR_PIN_SOUND, 2000, 500)]\<rparr>)"

text \<open>
  The turns add to the bearing and never normalise it; a strafe is a turn, a step and
  the opposite turn.
\<close>

definition step_backward :: "(fl \<Rightarrow> fl) \<Rightarrow> (fl \<Rightarrow> fl) \<Rightarrow> fl \<Rightarrow> state \<Rightarrow> state" where
  "step_backward cs sn distance s = step_forward cs sn (fneg distance) s"

definition turn_left :: "fl \<Rightarrow> state \<Rightarrow> state" where
  "turn_left speed s = s\<lparr>player_bearing := fsub (player_bearing s) speed\<rparr>"

definition turn_right :: "fl \<Rightarrow> state \<Rightarrow> state" where
  "turn_right speed s = s\<lparr>player_bearing := fadd (player_bearing s) speed\<rparr>"

definition strafe_left :: "(fl \<Rightarrow> fl) \<Rightarrow> (fl \<Rightarrow> fl) \<Rightarrow> fl \<Rightarrow> state \<Rightarrow> state" where
  "strafe_left cs sn distance s =
     turn_right (Fin 90) (step_forward cs sn distance (turn_left (Fin 90) s))"

definition strafe_right :: "(fl \<Rightarrow> fl) \<Rightarrow> (fl \<Rightarrow> fl) \<Rightarrow> fl \<Rightarrow> state \<Rightarrow> state" where
  "strafe_right cs sn distance s =
     turn_left (Fin 90) (step_forward cs sn distance (turn_right (Fin 90) s))"

section \<open>Sliver renderer\<close>

text \<open>
  \<^verbatim>\<open>put_pixel\<close> hands one pixel to the display library. \<^verbatim>\<open>render_sliver\<close> draws the two
  ends of the wall and the texture between them: its loop
  \<^verbatim>\<open>for (int y = ...; y <= ...; y++)\<close> runs over the integers from the truncated lower bound
  up to the float upper bound, and \<open>texture_pixel\<close> is its body. \<open>texture_rows\<close> lists the
  values of \<^verbatim>\<open>y\<close>: none when the upper bound is NaN or minus infinity. (Were the bound
  plus infinity the loop would not end; that needs a wall height beyond \<open>2^128\<close>, and
  \<^verbatim>\<open>ray_cast\<close> passes wall heights from 2 to 64, where the bound is finite: lemma
  \<open>texture_bound_finite\<close>. \<open>texture_rows\<close> is empty there.) The
  locals \<^verbatim>\<open>sliver_y1\<close>, \<^verbatim>\<open>sliver_y2\<close> and \<^verbatim>\<open>wall_shade\<close> are never read and are left out.
\<close>

definition put_pixel :: "int \<Rightarrow> int \<Rightarrow> int \<Rightarrow> state \<Rightarrow> state" where
  "put_pixel x y c s =
     (if c > 0 then s\<lparr>pixels := pixels s @ [(x, y, True)]\<rparr>
      else s\<lparr>pixels := pixels s @ [(x, y, False)]\<rparr>)"

definition texture_pixel :: "int \<Rightarrow> fl \<Rightarrow> int \<Rightarrow> state \<Rightarrow> state" where
  "texture_pixel x wall_height y s =
     (let wi = to_int (fmul (fdiv wall_height (Fin (of_int screen_height)))
                 (Fin (of_int NUM_WALL_TEXTURES)));
          wi = (if wi > NUM_WALL_TEXTURES - 1 then NUM_WALL_TEXTURES - 1 else wi);
          wx = c_rem x WALL_TEXTURE_X_DIM;
          wy = c_rem y WALL_TEXTURE_Y_DIM;
          c = wall_textures s wi wx wy
      in put_pixel x y (uint c) s)"

fun texture_rows :: "int \<Rightarrow> fl \<Rightarrow> int list" where
  "texture_rows y_first (Fin b) = [y_first..\<lfloor>b\<rfloor>]"
| "texture_rows y_first PInf = []"
| "texture_rows y_first NInf = []"
| "texture_rows y_first NaN = []"

definition render_sliver :: "int \<Rightarrow> fl \<Rightarrow> fl \<Rightarrow> state \<Rightarrow> state" where
  "render_sliver x wall_height wall_color s =
     (let screen_middle_y = fdiv (Fin (of_int screen_height)) (Fin 2);
          half_wall_height = fdiv wall_height (Fin 2);
          s0 = s\<lparr>slivers := slivers s @ [(x, wall_height, wall_color)]\<rparr>;
          s1 = put_pixel x (to_int (fsub screen_middle_y half_wall_height)) 1 s0;
          s2 = put_pixel x (to_int (fadd screen_middle_y half_wall_height)) 1 s1;
          y_first = to_int (fadd (fsub screen_middle_y half_wall_height) (Fin 1));
          y_bound = fsub (fadd screen_middle_y half_wall_height) (Fin 1)
      in fold (texture_pixel x wall_height) (texture_rows y_first y_bound) s2)"

section \<open>Ray caster\<close>

text \<open>Arduino's \<^verbatim>\<open>randomSeed\<close> reseeds the generator unless the seed is 0.\<close>

definition randomSeed :: "int \<Rightarrow> state \<Rightarrow> state" where
  "randomSeed seed s = (if seed \<noteq> 0 then s\<lparr>random_seed := seed\<rparr> else s)"

text \<open>What \<^verbatim>\<open>ray_cast\<close> does at a hit, up to its \<^verbatim>\<open>break\<close>.\<close>

definition on_hit :: "int \<Rightarrow> real \<Rightarrow> fl \<Rightarrow> fl \<Rightarrow> fl \<Rightarrow> state \<Rightarrow> state" where
  "on_hit sliver wall_height r x y s =
     (let s1 = s\<lparr>ray_d := (ray_d s)(sliver \<mapsto> r)\<rparr>;
          wall_color = Fin 1;
          wall_color = (if flt (Fin 1) r then fdiv (Fin 1) r else wall_color);
          wall_color = (if c_rem (to_int (fmul x (Fin 5))) MAP_X_DIM = 0 \<and>
                           c_rem (to_int (fmul y (Fin 5))) MAP_Y_DIM = 0
                        then Fin 1 else wall_color);
          s2 = randomSeed (to_int (fmul (fadd (fmul y (Fin (of_int MAP_X_DIM))) x) (Fin 100))) s1
      in render_sliver sliver (Fin wall_height) wall_color s2)"

text \<open>
  The scan loop of one column. Its variable \<^verbatim>\<open>wall_height\<close> starts at \<open>screen_height\<close>
  and takes the values 64, 62, ..., 0, which binary32 holds exactly (lemma
  \<open>wall_height_step_exact\<close>), so it is kept as the real number it denotes and the
  decrement is written without rounding. The condition of the \<^verbatim>\<open>if\<close> is a chain of
  \<^verbatim>\<open>||\<close>: \<open>my_map\<close> is read only when the four comparisons before it are false.
\<close>

function scan :: "(fl \<Rightarrow> fl) \<Rightarrow> (fl \<Rightarrow> fl) \<Rightarrow> int \<Rightarrow> fl \<Rightarrow> real \<Rightarrow> state \<Rightarrow> state" where
  "scan cs sn sliver theta wall_height s =
     (if wall_height > 0 then
        (let k = Fin 1;
             r = fdiv (fmul k (Fin (of_int screen_height))) (Fin wall_height);
             theta_radians = fdiv (fmul theta PI) (Fin 180);
             x = fadd (player_x s) (fmul r (cs theta_radians));
             y = fadd (player_y s) (fmul r (sn theta_radians));
             s1 = s\<lparr>samples := samples s @ [(sliver, wall_height, r)]\<rparr>
         in if flt x (Fin 0) \<or> flt y (Fin 0) \<or>
               fle (Fin (of_int MAP_X_DIM)) x \<or> fle (Fin (of_int MAP_Y_DIM)) y
            then on_hit sliver wall_height r x y s1
            else (let s2 = s1\<lparr>map_reads := map_reads s1 @ [(to_int x, to_int y)]\<rparr>
                  in if my_map s2 (to_int x) (to_int y) \<noteq> 0
                     then on_hit sliver wall_height r x y s2
                     else scan cs sn sliver theta (wall_height - 2) s2))
      else s)"
  by pat_completeness auto
termination
proof (relation "measure (\<lambda>(cs, sn, sliver, theta, wall_height, s). nat \<lceil>wall_height\<rceil>)")
  show "wf (measure (\<lambda>(cs, sn, sliver, theta, wall_height, s). nat \<lceil>wall_height\<rceil>))"
    by simp
next
  fix cs sn :: "fl \<Rightarrow> fl" and sliver :: int and theta :: fl and wall_height :: real
    and s s2 :: state
  assume "0 < wall_height"
  then have "0 < \<lceil>wall_height\<rceil>" by simp
  moreover have "\<lceil>wall_height - 2\<rceil> = \<lceil>wall_height\<rceil> - 2" by simp
  ultimately show "((cs, sn, sliver, theta, wall_height - 2, s2), (cs, sn, sliver, theta, wall_height, s))
      \<in> measure (\<lambda>(cs, sn, sliver, theta, wall_height, s). nat \<lceil>wall_height\<rceil>)"
    by simp
qed

text \<open>The loop over the columns, and \<^verbatim>\<open>ray_cast\<close>.\<close>

function columns :: "(fl \<Rightarrow> fl) \<Rightarrow> (fl \<Rightarrow> fl) \<Rightarrow> int \<Rightarrow> fl \<Rightarrow> state \<Rightarrow> state" where
  "columns cs sn sliver theta s =
     (if sliver < NUM_SLIVERS
      then columns cs sn (sliver + 1) (fadd theta theta_inc)
             (scan cs sn sliver theta (of_int screen_height) s)
      else s)"
  by pat_completeness auto
termination
  by (relation "measure (\<lambda>(cs, sn, sliver, theta, s). nat (NUM_SLIVERS - sliver))") auto

definition ray_cast :: "(fl \<Rightarrow> fl) \<Rightarrow> (fl \<Rightarrow> fl) \<Rightarrow> state \<Rightarrow> state" where
  "ray_cast cs sn s =
     (let theta = fsub (player_bearing s) (fdiv FOV (Fin 2))
      in columns cs sn 0 theta (s\<lparr>ray_d := Map.empty\<rparr>))"

section \<open>Vocabulary of the properties\<close>

text \<open>The radius the scan loop derives from a wall height, and the point it then samples.\<close>

definition radius :: "real \<Rightarrow> fl" where
  "radius wall_height = fdiv (fmul (Fin 1) (Fin (of_int screen_height))) (Fin wall_height)"

definition ray_x :: "(fl \<Rightarrow> fl) \<Rightarrow> fl \<Rightarrow> real \<Rightarrow> state \<Rightarrow> fl" where
  "ray_x cs theta wall_height s =
     fadd (player_x s) (fmul (radius wall_height) (cs (fdiv (fmul theta PI) (Fin 180))))"

definition ray_y :: "(fl \<Rightarrow> fl) \<Rightarrow> fl \<Rightarrow> real \<Rightarrow> state \<Rightarrow> fl" where
  "ray_y sn theta wall_height s =
     fadd (player_y s) (fmul (radius wall_height) (sn (fdiv (fmul theta PI) (Fin 180))))"

definition outside_map :: "fl \<Rightarrow> fl \<Rightarrow> bool" where
  "outside_map x y \<longleftrightarrow>
     flt x (Fin 0) \<or> flt y (Fin 0) \<or> fle (Fin (of_int MAP_X_DIM)) x \<or> fle (Fin (of_int MAP_Y_DIM)) y"

definition is_hit :: "(fl \<Rightarrow> fl) \<Rightarrow> (fl \<Rightarrow> fl) \<Rightarrow> fl \<Rightarrow> real \<Rightarrow> state \<Rightarrow> bool" where
  "is_hit cs sn theta wall_height s \<longleftrightarrow>
     (let x = ray_x cs theta wall_height s; y = ray_y sn theta wall_height s
      in outside_map x y \<or> my_map s (to_int x) (to_int y) \<noteq> 0)"

text \<open>
  The wall heights the scan loop runs through when nothing is hit: the loop header
  \<^verbatim>\<open>for (wall_height = ...; wall_height > 0; wall_height -= 2)\<close> on its own.
\<close>

function heights :: "real \<Rightarrow> real list" where
  "heights wall_height = (if wall_height > 0 then wall_height # heights (wall_height - 2) else [])"
  by pat_completeness auto
termination
proof (relation "measure (\<lambda>wall_height. nat \<lceil>wall_height\<rceil>)")
  show "wf (measure (\<lambda>wall_height. nat \<lceil>wall_height\<rceil>))"
    by simp
next
  fix wall_height :: real
  assume "0 < wall_height"
  then have "0 < \<lceil>wall_height\<rceil>" by simp
  moreover have "\<lceil>wall_height - 2\<rceil> = \<lceil>wall_height\<rceil> - 2" by simp
  ultimately show "(wall_height - 2, wall_height) \<in> measure (\<lambda>wall_height. nat \<lceil>wall_height\<rceil>)"
    by simp
qed

text \<open>The elements of a list up to and including the first one that satisfies \<open>P\<close>.\<close>

fun upto_first :: "('a \<Rightarrow> bool) \<Rightarrow> 'a list \<Rightarrow> 'a list" where
  "upto_first P [] = []"
| "upto_first P (x # xs) = (if P x then [x] else x # upto_first P xs)"

text \<open>
  The angle of a column of \<^verbatim>\<open>ray_cast\<close>: \<open>first_theta\<close> is the value \<^verbatim>\<open>theta\<close> starts with,
  and \<open>column_theta theta j\<close> its value after \<open>j\<close> executions of \<^verbatim>\<open>theta += theta_inc\<close>.
  \<open>column_hit cs sn s j\<close> is the wall height at which the scan of column \<open>j\<close> ends in a
  hit, \<open>None\<close> when it runs through all the wall heights without one.
\<close>

definition first_theta :: "state \<Rightarrow> fl" where
  "first_theta s = fsub (player_bearing s) (fdiv FOV (Fin 2))"

fun column_theta :: "fl \<Rightarrow> nat \<Rightarrow> fl" where
  "column_theta theta 0 = theta"
| "column_theta theta (Suc j) = fadd (column_theta theta j) theta_inc"

definition column_hit :: "(fl \<Rightarrow> fl) \<Rightarrow> (fl \<Rightarrow> fl) \<Rightarrow> state \<Rightarrow> nat \<Rightarrow> real option" where
  "column_hit cs sn s j =
     find (\<lambda>h. is_hit cs sn (column_theta (first_theta s) j) h s) (heights (of_int screen_height))"

text \<open>
  The iterations the scan of one column goes through, as the trace \<open>samples\<close> records
  them: the wall heights up to the first hit, each with its radius.
\<close>

definition column_samples ::
  "(fl \<Rightarrow> fl) \<Rightarrow> (fl \<Rightarrow> fl) \<Rightarrow> state \<Rightarrow> int \<Rightarrow> fl \<Rightarrow> (int \<times> real \<times> fl) list" where
  "column_samples cs sn s sliver theta =
     map (\<lambda>h. (sliver, h, radius h))
       (upto_first (\<lambda>h. is_hit cs sn theta h s) (heights (of_int screen_height)))"

text \<open>\<open>drew s s'\<close>: the state \<open>s'\<close> is \<open>s\<close> with more calls to the display, and nothing else changed.\<close>

definition drew :: "state \<Rightarrow> state \<Rightarrow> bool" where
  "drew s s' \<longleftrightarrow> (\<exists>ps. s' = s\<lparr>pixels := pixels s @ ps\<rparr>)"

text \<open>
  What the geometric properties need of the C library: at every finite argument \<open>t\<close>,
  \<^verbatim>\<open>cos\<close> and \<^verbatim>\<open>sin\<close> return finite values that are, to within \<open>0.01\<close>, the cosine and the
  sine of one angle \<open>u\<close>, so the pair is close to the unit circle. For a library that is
  accurate at \<open>t\<close>, \<open>u\<close> is \<open>t\<close>; a binary32 library is accurate to a few units in the
  seventh digit, and where reducing a large argument costs it accuracy, \<open>u\<close> is the
  reduced angle it works with. Nothing is asked at an infinity or at NaN.

  \<open>exact_cos\<close> and \<open>exact_sin\<close> are one such library: the exact cosine and sine at a finite
  argument and, as the C standard has it, NaN at an infinity and at NaN.
\<close>

definition libm_accurate :: "(fl \<Rightarrow> fl) \<Rightarrow> (fl \<Rightarrow> fl) \<Rightarrow> bool" where
  "libm_accurate cs sn \<longleftrightarrow>
     (\<forall>t. \<exists>c d u. cs (Fin t) = Fin c \<and> sn (Fin t) = Fin d \<and>
        \<bar>c - cos u\<bar> \<le> 1 / 100 \<and> \<bar>d - sin u\<bar> \<le> 1 / 100)"

fun exact_cos :: "fl \<Rightarrow> fl" where
  "exact_cos (Fin t) = Fin (cos t)"
| "exact_cos PInf = NaN"
| "exact_cos NInf = NaN"
| "exact_cos NaN = NaN"

fun exact_sin :: "fl \<Rightarrow> fl" where
  "exact_sin (Fin t) = Fin (sin t)"
| "exact_sin PInf = NaN"
| "exact_sin NInf = NaN"
| "exact_sin NaN = NaN"

declare scan.simps [simp del] columns.simps [simp del] heights.simps [simp del]

section \<open>Rounding to binary32: exactness and monotonicity\<close>

lemma round_even_of_int [simp]: "round_even (of_int n) = n"
  by (simp add: round_even_def)

lemma round_even_floor: "\<lfloor>y\<rfloor> \<le> round_even y" "round_even y \<le> \<lfloor>y\<rfloor> + 1"
  by (simp_all add: round_even_def Let_def)

lemma round_even_up_iff:
  "round_even y = \<lfloor>y\<rfloor> + 1 \<longleftrightarrow> (1 / 2 < y - of_int \<lfloor>y\<rfloor> \<or> (y - of_int \<lfloor>y\<rfloor> = 1 / 2 \<and> odd \<lfloor>y\<rfloor>))"
  by (auto simp: round_even_def Let_def)

lemma round_even_mono:
  assumes "x \<le> y"
  shows "round_even x \<le> round_even y"
proof (cases "\<lfloor>x\<rfloor> < \<lfloor>y\<rfloor>")
  case True
  have "round_even x \<le> \<lfloor>x\<rfloor> + 1" by (rule round_even_floor)
  also have "\<dots> \<le> \<lfloor>y\<rfloor>" using True by simp
  also have "\<dots> \<le> round_even y" by (rule round_even_floor)
  finally show ?thesis .
next
  case False
  with assms have eq: "\<lfloor>x\<rfloor> = \<lfloor>y\<rfloor>"
    using floor_mono [of x y] by simp
  show ?thesis
  proof (cases "round_even x = \<lfloor>x\<rfloor> + 1")
    case True
    then have "round_even y = \<lfloor>y\<rfloor> + 1"
      using assms eq unfolding round_even_up_iff by auto
    with True eq show ?thesis by simp
  next
    case False
    then have "round_even x = \<lfloor>x\<rfloor>"
      using round_even_floor [of x] by linarith
    then show ?thesis using eq round_even_floor(1) [of y] by simp
  qed
qed

lemma round_even_minus: "round_even (- y) = - round_even y"
proof (cases "y = of_int \<lfloor>y\<rfloor>")
  case True
  then obtain n where "y = of_int n" ..
  then have "- y = of_int (- n)" by simp
  then show ?thesis using \<open>y = of_int n\<close> by (metis round_even_of_int)
next
  case False
  then have lt: "of_int \<lfloor>y\<rfloor> < y"
    using of_int_floor_le [of y] by linarith
  have ub: "y < of_int \<lfloor>y\<rfloor> + 1" by linarith
  have fl: "\<lfloor>- y\<rfloor> = - \<lfloor>y\<rfloor> - 1"
  proof (rule floor_unique)
    have c: "real_of_int (- \<lfloor>y\<rfloor> - 1) = - of_int \<lfloor>y\<rfloor> - 1" by simp
    show "of_int (- \<lfloor>y\<rfloor> - 1) \<le> - y" unfolding c using ub by linarith
    show "- y < of_int (- \<lfloor>y\<rfloor> - 1) + 1" unfolding c using lt by linarith
  qed
  define f where "f = \<lfloor>y\<rfloor>"
  define d where "d = y - of_int f"
  have y: "y = of_int f + d" by (simp add: d_def)
  have ev: "even (- f - 1) \<longleftrightarrow> odd f" by simp
  have "round_even y = (if d < 1 / 2 then f else if 1 / 2 < d then f + 1 else if even f then f else f + 1)"
    by (simp add: round_even_def Let_def f_def d_def)
  moreover have "round_even (- y) = (if 1 - d < 1 / 2 then - f - 1 else if 1 / 2 < 1 - d then - f else if odd f then - f - 1 else - f)"
    unfolding round_even_def Let_def fl f_def [symmetric] ev by (simp add: y)
  ultimately show ?thesis by (auto simp: not_less)
qed

lemma exp_search_range: "e - int n \<le> exp_search n e a \<and> exp_search n e a \<le> e"
  by (induction n e a rule: exp_search.induct) auto

lemma exp_search_lower: "exp_search n e a = e - int n \<or> 2 powi (exp_search n e a) \<le> a"
  by (induction n e a rule: exp_search.induct) auto

lemma exp_search_upper: "exp_search n e a = e \<or> a < 2 powi (exp_search n e a + 1)"
  by (induction n e a rule: exp_search.induct) auto

lemma f32_exp_range: "- 126 \<le> f32_exp x" "f32_exp x \<le> 127"
  using exp_search_range [of 127 253 "\<bar>x\<bar>"] by (simp_all add: f32_exp_def)

lemma f32_exp_lower: "f32_exp x = - 126 \<or> 2 powi (f32_exp x) \<le> \<bar>x\<bar>"
  using exp_search_lower [of 253 127 "\<bar>x\<bar>"] by (simp add: f32_exp_def)

lemma f32_exp_upper: "f32_exp x = 127 \<or> \<bar>x\<bar> < 2 powi (f32_exp x + 1)"
  using exp_search_upper [of 253 127 "\<bar>x\<bar>"] by (simp add: f32_exp_def)

lemma f32_exp_minus [simp]: "f32_exp (- x) = f32_exp x"
  by (simp add: f32_exp_def)

lemma f32_minus: "f32 (- x) = - f32 x"
  by (simp add: f32_def Let_def round_even_minus)


lemma powi_pos: "0 < (2::real) powi k"
  by simp

lemma powi_mono2: "a \<le> b \<Longrightarrow> (2::real) powi a \<le> 2 powi b"
  by (rule power_int_increasing) simp_all

lemma powi_less_cancel: "(2::real) powi a < 2 powi b \<Longrightarrow> a < b"
  using powi_mono2 [of b a] by (cases "a < b") auto

lemma f32_exact:
  assumes x: "x = of_int m * 2 powi e" and m: "\<bar>m\<bar> < 2 ^ 24" and e: "- 149 \<le> e"
  shows "f32 x = x"
proof -
  define E where "E = f32_exp x"
  have le: "E - 23 \<le> e"
  proof (cases "E = - 126")
    case True
    with e show ?thesis by simp
  next
    case False
    then have "2 powi E \<le> \<bar>x\<bar>"
      using f32_exp_lower [of x] by (simp add: E_def)
    also have "\<bar>x\<bar> = of_int \<bar>m\<bar> * 2 powi e"
      by (simp add: x abs_mult)
    also have "\<dots> < 2 ^ 24 * 2 powi e"
    proof -
      have "real_of_int \<bar>m\<bar> < real_of_int (2 ^ 24)"
        using m by (simp only: of_int_less_iff)
      then show ?thesis by simp
    qed
    also have "\<dots> = 2 powi (24 + e)"
      by (simp add: power_int_add)
    finally have "E < 24 + e" by (rule powi_less_cancel)
    then show ?thesis by simp
  qed
  define k where "k = nat (e - (E - 23))"
  have e_eq: "e = (E - 23) + int k"
    using le by (simp add: k_def)
  have "x / 2 powi (E - 23) = of_int m * 2 ^ k"
    by (simp add: x e_eq power_int_add)
  also have "\<dots> = of_int (m * 2 ^ k)" by simp
  finally have "round_even (x / 2 powi (E - 23)) = m * 2 ^ k"
    by (simp only: round_even_of_int)
  then have "f32 x = 2 powi (E - 23) * of_int (m * 2 ^ k)"
    by (simp add: f32_def Let_def E_def)
  also have "\<dots> = x"
    by (simp add: x e_eq power_int_add)
  finally show ?thesis .
qed

lemma f32_nonneg:
  assumes "0 \<le> x"
  shows "0 \<le> f32 x"
proof -
  have "0 \<le> x / 2 powi (f32_exp x - 23)" using assms by simp
  then have "0 \<le> round_even (x / 2 powi (f32_exp x - 23))"
    using round_even_mono [of 0 "x / 2 powi (f32_exp x - 23)"] round_even_of_int [of 0] by simp
  then show ?thesis by (simp add: f32_def Let_def)
qed

lemma f32_upper:
  assumes "0 \<le> x" and "f32_exp x < 127"
  shows "f32 x \<le> 2 powi (f32_exp x + 1)"
proof -
  define E where "E = f32_exp x"
  have "x < 2 powi (E + 1)"
    using f32_exp_upper [of x] assms by (simp add: E_def)
  also have "\<dots> = 2 powi (E - 23) * 2 ^ 24"
    by (simp add: power_int_add power_int_diff)
  finally have "x / 2 powi (E - 23) \<le> of_int (2 ^ 24)"
    by (simp add: pos_divide_le_eq mult.commute)
  from round_even_mono [OF this] have "round_even (x / 2 powi (E - 23)) \<le> 2 ^ 24"
    by (simp only: round_even_of_int)
  then have "real_of_int (round_even (x / 2 powi (E - 23))) \<le> 2 ^ 24"
    by (metis of_int_le_iff of_int_numeral of_int_power)
  then have "2 powi (E - 23) * real_of_int (round_even (x / 2 powi (E - 23))) \<le> 2 powi (E - 23) * 2 ^ 24"
    by (rule mult_left_mono) simp
  also have "\<dots> = 2 powi (E + 1)"
    by (simp add: power_int_add power_int_diff)
  finally show ?thesis by (simp add: f32_def Let_def E_def)
qed

lemma f32_lower:
  assumes "0 \<le> x" and "2 powi f32_exp x \<le> x"
  shows "2 powi f32_exp x \<le> f32 x"
proof -
  define E where "E = f32_exp x"
  have E: "(2::real) powi E = 2 powi (E - 23) * 2 ^ 23"
    by (simp add: power_int_add power_int_diff)
  have "2 powi (E - 23) * 2 ^ 23 \<le> x"
    using assms(2) unfolding E_def [symmetric] E .
  then have "of_int (2 ^ 23) \<le> x / 2 powi (E - 23)"
    by (simp add: pos_le_divide_eq mult.commute)
  from round_even_mono [OF this] have "2 ^ 23 \<le> round_even (x / 2 powi (E - 23))"
    by (simp only: round_even_of_int)
  then have "2 ^ 23 \<le> real_of_int (round_even (x / 2 powi (E - 23)))"
    by (metis of_int_le_iff of_int_numeral of_int_power)
  then have "2 powi (E - 23) * 2 ^ 23 \<le> 2 powi (E - 23) * real_of_int (round_even (x / 2 powi (E - 23)))"
    by (rule mult_left_mono) simp
  then show ?thesis unfolding E [symmetric] by (simp add: f32_def Let_def E_def)
qed

lemma f32_exp_mono:
  assumes "\<bar>x\<bar> \<le> \<bar>y\<bar>"
  shows "f32_exp x \<le> f32_exp y"
proof (rule ccontr)
  assume "\<not> f32_exp x \<le> f32_exp y"
  then have lt: "f32_exp y < f32_exp x" by simp
  then have "f32_exp y \<noteq> 127" using f32_exp_range(2) [of x] by simp
  then have "\<bar>y\<bar> < 2 powi (f32_exp y + 1)" using f32_exp_upper [of y] by simp
  also have "\<dots> \<le> 2 powi f32_exp x" using lt by (intro powi_mono2) simp
  also have "\<dots> \<le> \<bar>x\<bar>"
    using f32_exp_lower [of x] lt f32_exp_range(1) [of y] by auto
  finally show False using assms by simp
qed

lemma f32_mono_nonneg:
  assumes "0 \<le> x" and "x \<le> y"
  shows "f32 x \<le> f32 y"
proof -
  have y0: "0 \<le> y" using assms by simp
  have "f32_exp x \<le> f32_exp y"
    using assms by (intro f32_exp_mono) simp
  then consider "f32_exp x = f32_exp y" | "f32_exp x < f32_exp y" by linarith
  then show ?thesis
  proof cases
    case 1
    have "x / 2 powi (f32_exp y - 23) \<le> y / 2 powi (f32_exp y - 23)"
      using assms(2) by (simp add: divide_right_mono)
    from round_even_mono [OF this] show ?thesis
      by (simp add: f32_def Let_def 1)
  next
    case 2
    then have "f32_exp x < 127" using f32_exp_range(2) [of y] by simp
    then have "f32 x \<le> 2 powi (f32_exp x + 1)" using assms(1) by (intro f32_upper)
    also have "\<dots> \<le> 2 powi f32_exp y" using 2 by (intro powi_mono2) simp
    also have "\<dots> \<le> f32 y"
    proof (rule f32_lower [OF y0])
      show "2 powi f32_exp y \<le> y"
        using f32_exp_lower [of y] 2 f32_exp_range(1) [of x] y0 by auto
    qed
    finally show ?thesis .
  qed
qed

lemma f32_mono:
  assumes "x \<le> y"
  shows "f32 x \<le> f32 y"
proof -
  consider "0 \<le> x" | "y \<le> 0" | "x < 0" "0 < y" by linarith
  then show ?thesis
  proof cases
    case 1
    then show ?thesis using assms by (rule f32_mono_nonneg)
  next
    case 2
    then have "f32 (- y) \<le> f32 (- x)" using assms by (intro f32_mono_nonneg) simp_all
    then show ?thesis by (simp add: f32_minus)
  next
    case 3
    have "0 \<le> f32 (- x)" using 3 by (intro f32_nonneg) simp
    moreover have "0 \<le> f32 y" using 3 by (intro f32_nonneg) simp
    ultimately show ?thesis by (simp add: f32_minus)
  qed
qed



lemma f32_exp_eq:
  assumes lo: "2 powi e \<le> \<bar>x\<bar>" and hi: "\<bar>x\<bar> < 2 powi (e + 1)"
    and r: "- 126 \<le> e" "e \<le> 127"
  shows "f32_exp x = e"
proof (rule antisym)
  show "f32_exp x \<le> e"
  proof (rule ccontr)
    assume "\<not> f32_exp x \<le> e"
    then have gt: "e < f32_exp x" by simp
    then have "2 powi f32_exp x \<le> \<bar>x\<bar>"
      using f32_exp_lower [of x] r by auto
    with hi have "(2::real) powi f32_exp x < 2 powi (e + 1)" by simp
    then have "f32_exp x < e + 1" by (rule powi_less_cancel)
    with gt show False by simp
  qed
  show "e \<le> f32_exp x"
  proof (rule ccontr)
    assume "\<not> e \<le> f32_exp x"
    then have lt: "f32_exp x < e" by simp
    then have "\<bar>x\<bar> < 2 powi (f32_exp x + 1)"
      using f32_exp_upper [of x] r by auto
    also have "\<dots> \<le> 2 powi e" using lt by (intro powi_mono2) simp
    finally show False using lo by simp
  qed
qed

lemma f32_eval:
  assumes "2 powi e \<le> \<bar>x\<bar>" and "\<bar>x\<bar> < 2 powi (e + 1)" and "- 126 \<le> e" and "e \<le> 127"
  shows "f32 x = 2 powi (e - 23) * of_int (round_even (x / 2 powi (e - 23)))"
  by (simp add: f32_def Let_def f32_exp_eq [OF assms])

lemma f32_exact_div:
  assumes "x = of_int m / 2 ^ k" and "\<bar>m\<bar> < 2 ^ 24" and "k \<le> 149"
  shows "f32 x = x"
proof (rule f32_exact [of x m "- int k"])
  show "x = of_int m * 2 powi (- int k)"
    by (simp add: assms(1) power_int_minus divide_inverse)
qed (use assms in simp_all)

lemma f32_0 [simp]: "f32 0 = 0"
  using f32_exact [of 0 0 0] by simp

lemma f32_of_int:
  assumes "\<bar>n\<bar> < 2 ^ 24"
  shows "f32 (of_int n) = of_int n"
  using f32_exact [of "of_int n" n 0] assms by simp

lemma round_even_eqI:
  assumes "\<bar>y - of_int n\<bar> < 1 / 2"
  shows "round_even y = n"
proof -
  have "\<lfloor>y\<rfloor> = n \<or> \<lfloor>y\<rfloor> = n - 1" using assms by linarith
  then show ?thesis
  proof
    assume f: "\<lfloor>y\<rfloor> = n"
    have "y - of_int \<lfloor>y\<rfloor> < 1 / 2" unfolding f using assms by linarith
    then show ?thesis by (simp add: round_even_def Let_def f)
  next
    assume f: "\<lfloor>y\<rfloor> = n - 1"
    have "real_of_int (n - 1) = of_int n - 1" by simp
    then have "1 / 2 < y - of_int \<lfloor>y\<rfloor>" unfolding f using assms by linarith
    then show ?thesis by (simp add: round_even_def Let_def f)
  qed
qed

lemma f32_eqI:
  assumes "2 powi e \<le> \<bar>x\<bar>" and "\<bar>x\<bar> < 2 powi (e + 1)" and "- 126 \<le> e" and "e \<le> 127"
    and "\<bar>x / 2 powi (e - 23) - of_int n\<bar> < 1 / 2"
  shows "f32 x = of_int n * 2 powi (e - 23)"
  by (simp add: f32_eval [OF assms(1-4)] round_even_eqI [OF assms(5)])

lemmas powi_eval = power_int_def power_one_over power_divide

lemma round_even_error: "\<bar>of_int (round_even y) - y\<bar> \<le> 1 / 2"
  unfolding round_even_def Let_def by (auto; linarith)

lemma f32_error: "\<bar>f32 x - x\<bar> \<le> 2 powi (f32_exp x - 24)"
proof -
  define u :: real where "u = 2 powi (f32_exp x - 23)"
  have u: "0 < u" by (simp add: u_def)
  have "f32 x - x = u * (of_int (round_even (x / u)) - x / u)"
    using u by (simp add: f32_def Let_def u_def algebra_simps)
  then have "\<bar>f32 x - x\<bar> = u * \<bar>of_int (round_even (x / u)) - x / u\<bar>"
    using u by (simp add: abs_mult)
  also have "\<dots> \<le> u * (1 / 2)"
    using u round_even_error [of "x / u"] by (intro mult_left_mono) simp_all
  also have "\<dots> = 2 powi (f32_exp x - 24)"
    by (simp add: u_def power_int_diff)
  finally show ?thesis .
qed

lemma f32_error_unit:
  assumes "\<bar>x\<bar> \<le> 1"
  shows "\<bar>f32 x - x\<bar> \<le> 1 / 100"
proof -
  have "f32_exp x \<le> 0"
  proof (rule ccontr)
    assume "\<not> f32_exp x \<le> 0"
    then have e: "1 \<le> f32_exp x" by simp
    then have "2 powi f32_exp x \<le> \<bar>x\<bar>" using f32_exp_lower [of x] by auto
    moreover have "(2::real) powi 1 \<le> 2 powi f32_exp x" using e by (rule powi_mono2)
    ultimately show False using assms by simp
  qed
  then have "(2::real) powi (f32_exp x - 24) \<le> 2 powi (- 24)"
    by (intro powi_mono2) simp
  also have "\<dots> \<le> 1 / 100" by (simp add: powi_eval)
  finally show ?thesis using f32_error [of x] by simp
qed

section \<open>Rounding with overflow\<close>

lemma f32_cap:
  assumes "\<bar>x\<bar> \<le> c" and "f32 c = c"
  shows "\<bar>f32 x\<bar> \<le> c"
proof -
  have "x \<le> c" "- c \<le> x" using assms(1) by simp_all
  from f32_mono [OF this(1)] f32_mono [OF this(2)]
  show ?thesis by (simp add: f32_minus assms(2))
qed

lemma rnd_fin: "\<bar>f32 x\<bar> < 2 ^ 128 \<Longrightarrow> rnd x = Fin (f32 x)"
  unfolding rnd_def Let_def by (simp add: abs_less_iff not_le)

lemma rnd_eval: "f32 x = y \<Longrightarrow> \<bar>y\<bar> < 2 ^ 128 \<Longrightarrow> rnd x = Fin y"
  using rnd_fin [of x] by simp

lemma f32_max: "f32 (16777215 * 2 ^ 104) = 16777215 * 2 ^ 104"
  using f32_exact [of "16777215 * 2 ^ 104" 16777215 104] by simp

lemma rnd_cap:
  assumes "\<bar>x\<bar> \<le> 16777215 * 2 ^ 104"
  shows "rnd x = Fin (f32 x)"
proof -
  have "\<bar>f32 x\<bar> \<le> 16777215 * 2 ^ 104"
    using assms f32_max by (rule f32_cap)
  also have "\<dots> < (2::real) ^ 128" by simp
  finally show ?thesis by (rule rnd_fin)
qed

lemma rnd_0 [simp]: "rnd 0 = Fin 0"
  by (simp add: rnd_def)

lemma rnd_cases:
  obtains "rnd z = Fin (f32 z)" "\<bar>f32 z\<bar> < 2 ^ 128"
  | "rnd z = PInf" "2 ^ 128 \<le> f32 z"
  | "rnd z = NInf" "f32 z \<le> - (2 ^ 128)"
  by (cases "2 ^ 128 \<le> f32 z"; cases "f32 z \<le> - (2 ^ 128)") (auto simp: rnd_def Let_def)

lemma rnd_not_NaN [simp]: "rnd z \<noteq> NaN"
  by (simp add: rnd_def Let_def)

lemma flt_rnd_left:
  assumes "\<bar>c\<bar> < 2 ^ 128"
  shows "flt (rnd z) (Fin c) \<longleftrightarrow> f32 z < c"
  using assms by (cases z rule: rnd_cases) auto

lemma flt_rnd_right:
  assumes "\<bar>c\<bar> < 2 ^ 128"
  shows "flt (Fin c) (rnd z) \<longleftrightarrow> c < f32 z"
  using assms by (cases z rule: rnd_cases) auto

lemma fle_rnd_right:
  assumes "\<bar>c\<bar> < 2 ^ 128"
  shows "fle (Fin c) (rnd z) \<longleftrightarrow> c \<le> f32 z"
  using assms by (cases z rule: rnd_cases) auto

lemma PI_eq: "PI = Fin (13176795 / 4194304)"
proof -
  have "f32 (31415926535897932384626433832795 / 10 ^ 31) = of_int 13176795 * 2 powi (1 - 23)"
    by (rule f32_eqI) (simp_all add: powi_eval)
  then have "f32 (31415926535897932384626433832795 / 10 ^ 31) = 13176795 / 4194304"
    by (simp add: powi_eval)
  then show ?thesis unfolding PI_def by (rule rnd_eval) simp
qed

lemma walk_speed_eq: "player_walk_speed = Fin (13421773 / 134217728)"
proof -
  have "f32 (1 / 10) = of_int 13421773 * 2 powi (- 4 - 23)"
    by (rule f32_eqI) (simp_all add: powi_eval)
  then have "f32 (1 / 10) = 13421773 / 134217728"
    by (simp add: powi_eval)
  then show ?thesis unfolding player_walk_speed_def by (rule rnd_eval) simp
qed

lemma theta_inc_eq: "theta_inc = Fin (45 / 64)"
proof -
  have "f32 (45 / 64) = 45 / 64" by (rule f32_exact_div [of _ 45 6]) simp_all
  then have "rnd (45 / 64) = Fin (45 / 64)" by (rule rnd_eval) simp
  then show ?thesis
    by (simp add: theta_inc_def FOV_def NUM_SLIVERS_def screen_width_def SCREEN_WIDTH_def)
qed

lemma turn_speed_eq: "player_turn_speed = Fin (45 / 4)"
proof -
  have "f32 (45 / 4) = 45 / 4" by (rule f32_exact_div [of _ 45 2]) simp_all
  then have "rnd (45 / 4) = Fin (45 / 4)" by (rule rnd_eval) simp
  then show ?thesis
    by (simp add: player_turn_speed_def theta_inc_eq)
qed

section \<open>Movement controller: properties\<close>

lemma f32_walk_speed: "f32 (13421773 / 134217728) = 13421773 / 134217728"
  by (rule f32_exact_div [of _ 13421773 27]) simp_all

lemma f32_5: "f32 5 = 5"
  using f32_of_int [of 5] by simp

lemma f32_11_2: "f32 (11 / 2) = 11 / 2"
  by (rule f32_exact_div [of _ 11 1]) simp_all

lemma initial_position:
  "player_x initial_state = Fin (11 / 2)" "player_y initial_state = Fin (11 / 2)"
  by (simp_all add: initial_state_def MAP_X_DIM_def MAP_Y_DIM_def rnd_def f32_5 f32_11_2)

lemma trunc_eval: "0 \<le> x \<Longrightarrow> trunc x = \<lfloor>x\<rfloor>"
  by (simp add: trunc_def)

lemma step_east_from_centre:
  "f32 (751619277 / 134217728) = 11744051 / 2097152"
proof -
  have "f32 (751619277 / 134217728) = of_int 11744051 * 2 powi (2 - 23)"
    by (rule f32_eqI) (simp_all add: powi_eval)
  then show ?thesis by (simp add: powi_eval)
qed

lemma step_east_from_edge:
  "f32 (1347210445 / 134217728) = 5262541 / 524288"
proof -
  have "f32 (1347210445 / 134217728) = of_int 10525082 * 2 powi (3 - 23)"
    by (rule f32_eqI) (simp_all add: powi_eval)
  then show ?thesis by (simp add: powi_eval)
qed

lemma step_forward_accepted_example:
  "step_forward exact_cos exact_sin player_walk_speed (initial_state\<lparr>player_bearing := Fin 0\<rparr>) =
     initial_state\<lparr>player_bearing := Fin 0, map_reads := [(5, 5)],
       player_x := Fin (11744051 / 2097152), player_y := Fin (11 / 2)\<rparr>"
  by (simp add: step_forward_def Let_def walk_speed_eq PI_eq rnd_def f32_walk_speed initial_position
      step_east_from_centre f32_11_2 trunc_eval MAP_X_DIM_def MAP_Y_DIM_def)
    (simp add: initial_state_def)

lemma step_forward_rejected_example:
  "step_forward exact_cos exact_sin player_walk_speed
      (initial_state\<lparr>player_bearing := Fin 0, player_x := Fin (159 / 16)\<rparr>) =
     initial_state\<lparr>player_bearing := Fin 0, player_x := Fin (159 / 16), map_reads := [(10, 5)],
       serial := [''Attempting to walk through wall... I can't do it!''],
       tones := [(RR_PIN_SOUND, 2000, 500)]\<rparr>"
  by (simp add: step_forward_def Let_def walk_speed_eq PI_eq rnd_def f32_walk_speed initial_position
      step_east_from_edge f32_11_2 trunc_eval MAP_X_DIM_def MAP_Y_DIM_def)
    (simp add: initial_state_def)

lemma step_forward_bearing: "player_bearing (step_forward cs sn d s) = player_bearing s"
  by (simp add: step_forward_def Let_def)

lemma step_forward_my_map: "my_map (step_forward cs sn d s) = my_map s"
  by (simp add: step_forward_def Let_def)

lemma step_forward_tones:
  "tones (step_forward cs sn d s) = tones s \<or>
   tones (step_forward cs sn d s) = tones s @ [(RR_PIN_SOUND, 2000, 500)]"
  by (simp add: step_forward_def Let_def)

lemma step_forward_reads:
  "map_reads (step_forward cs sn d s) = map_reads s @
     [(to_int (fadd (player_x s) (fmul d (cs (fdiv (fmul (player_bearing s) PI) (Fin 180))))),
       to_int (fadd (player_y s) (fmul d (sn (fdiv (fmul (player_bearing s) PI) (Fin 180))))))]"
  by (simp add: step_forward_def Let_def)

text \<open>
  Claim C1 says that a position is truncated and checked against \<open>[0,W) \<times> [0,H)\<close> before
  \<open>my_map\<close> is indexed, and that \<^verbatim>\<open>step_forward\<close> never indexes it outside that range.
  \<^verbatim>\<open>ray_cast\<close> does compare first (lemma \<open>ray_cast_reads_in_map\<close>; a NaN position
  passes its comparisons, and there the index is what the cast of NaN gives, 0 in this
  model), but \<^verbatim>\<open>step_forward\<close> reads the map first and compares afterwards (lemma
  \<open>step_forward_reads\<close>): one walk step east from \<open>(9.9375, 5.5)\<close> reads \<open>my_map[10][5]\<close>,
  beside the array, before the step is rejected.
\<close>

theorem step_forward_reads_outside_map:
  "map_reads (step_forward exact_cos exact_sin player_walk_speed
      (initial_state\<lparr>player_bearing := Fin 0, player_x := Fin (159 / 16)\<rparr>)) = [(10, 5)] \<and>
   \<not> in_map (10, 5)"
  by (simp add: step_forward_rejected_example in_map_def MAP_X_DIM_def)

lemma flt_between:
  assumes "flt (Fin lo) a" and "flt a (Fin hi)"
  obtains x where "a = Fin x" "lo < x" "x < hi"
  using assms by (cases a) simp_all

text \<open>
  Claim C3: for every pose and every distance, a step that is accepted (no tone is
  played) ends on a finite position whose map cell is 0 and that lies strictly inside
  \<open>(0, MAP_X_DIM) \<times> (0, MAP_Y_DIM)\<close>; a step that is rejected (the tone is played) leaves
  \<open>player_x\<close>, \<open>player_y\<close> and \<open>player_bearing\<close> as they were. The pose and the distance
  range over all floats, infinities and NaN included.
\<close>

theorem step_forward_accept_or_reject:
  fixes cs sn :: "fl \<Rightarrow> fl" and d :: fl and s :: state
  defines "s' \<equiv> step_forward cs sn d s"
  shows "(tones s' = tones s \<longrightarrow>
            (\<exists>x y. player_x s' = Fin x \<and> player_y s' = Fin y \<and>
               my_map s' (trunc x) (trunc y) = 0 \<and>
               0 < x \<and> x < of_int MAP_X_DIM \<and>
               0 < y \<and> y < of_int MAP_Y_DIM)) \<and>
         (tones s' \<noteq> tones s \<longrightarrow>
            player_x s' = player_x s \<and> player_y s' = player_y s \<and>
            player_bearing s' = player_bearing s)"
proof -
  define x' where "x' = fadd (player_x s) (fmul d (cs (fdiv (fmul (player_bearing s) PI) (Fin 180))))"
  define y' where "y' = fadd (player_y s) (fmul d (sn (fdiv (fmul (player_bearing s) PI) (Fin 180))))"
  define ok where "ok \<longleftrightarrow> my_map s (to_int x') (to_int y') = 0 \<and> flt (Fin 0) x' \<and> flt (Fin 0) y' \<and>
      flt x' (Fin (of_int MAP_X_DIM)) \<and> flt y' (Fin (of_int MAP_Y_DIM))"
  have acc: "ok \<Longrightarrow> tones s' = tones s \<and> player_x s' = x' \<and> player_y s' = y' \<and> my_map s' = my_map s"
    and rej: "\<not> ok \<Longrightarrow> tones s' \<noteq> tones s \<and> player_x s' = player_x s \<and> player_y s' = player_y s \<and>
      player_bearing s' = player_bearing s"
    unfolding s'_def step_forward_def Let_def ok_def x'_def y'_def by simp_all
  show ?thesis
  proof (cases ok)
    case False
    from rej [OF False] show ?thesis by simp
  next
    case True
    then have c: "my_map s (to_int x') (to_int y') = 0" "flt (Fin 0) x'" "flt (Fin 0) y'"
      "flt x' (Fin (of_int MAP_X_DIM))" "flt y' (Fin (of_int MAP_Y_DIM))"
      by (simp_all add: ok_def)
    from c(2,4) obtain x where x: "x' = Fin x" "0 < x" "x < of_int MAP_X_DIM"
      by (rule flt_between)
    from c(3,5) obtain y where y: "y' = Fin y" "0 < y" "y < of_int MAP_Y_DIM"
      by (rule flt_between)
    have "my_map s' (trunc x) (trunc y) = 0"
      using c(1) acc [OF True] by (simp add: x(1) y(1))
    with acc [OF True] x y show ?thesis by simp
  qed
qed

text \<open>
  An accepted step (east from the centre of the empty map) and a rejected one (east
  from \<open>x = 9.9375\<close>).
\<close>

theorem step_forward_accept_or_reject_witness:
  "tones (step_forward exact_cos exact_sin player_walk_speed
      (initial_state\<lparr>player_bearing := Fin 0\<rparr>)) = [] \<and>
   my_map initial_state 5 5 = 0 \<and>
   player_x (step_forward exact_cos exact_sin player_walk_speed
      (initial_state\<lparr>player_bearing := Fin 0\<rparr>)) = Fin (11744051 / 2097152) \<and>
   tones (step_forward exact_cos exact_sin player_walk_speed
      (initial_state\<lparr>player_bearing := Fin 0, player_x := Fin (159 / 16)\<rparr>))
     = [(RR_PIN_SOUND, 2000, 500)] \<and>
   player_x (step_forward exact_cos exact_sin player_walk_speed
      (initial_state\<lparr>player_bearing := Fin 0, player_x := Fin (159 / 16)\<rparr>)) = Fin (159 / 16)"
  using step_forward_accept_or_reject [of exact_cos exact_sin player_walk_speed
      "initial_state\<lparr>player_bearing := Fin 0\<rparr>"]
    step_forward_accept_or_reject [of exact_cos exact_sin player_walk_speed
      "initial_state\<lparr>player_bearing := Fin 0, player_x := Fin (159 / 16)\<rparr>"]
  by (simp add: step_forward_accepted_example step_forward_rejected_example)
    (simp add: initial_state_def)

lemma turn_left_position:
  "player_x (turn_left a s) = player_x s" "player_y (turn_left a s) = player_y s"
  by (simp_all add: turn_left_def)

lemma turn_right_position:
  "player_x (turn_right a s) = player_x s" "player_y (turn_right a s) = player_y s"
  by (simp_all add: turn_right_def)

lemma strafe_left_bearing:
  "player_bearing (strafe_left cs sn d s) = fadd (fsub (player_bearing s) (Fin 90)) (Fin 90)"
  by (simp add: strafe_left_def turn_right_def turn_left_def step_forward_bearing)

lemma strafe_right_bearing:
  "player_bearing (strafe_right cs sn d s) = fsub (fadd (player_bearing s) (Fin 90)) (Fin 90)"
  by (simp add: strafe_right_def turn_right_def turn_left_def step_forward_bearing)

lemma is_f32D: "is_f32 x \<Longrightarrow> f32 x = x"
  by (simp add: is_f32_def)

lemma is_f32_rnd: "is_f32 x \<Longrightarrow> rnd x = Fin x"
  unfolding is_f32_def by (rule rnd_eval) simp_all

lemma is_f32_quarter:
  assumes "\<bar>m\<bar> < 2 ^ 24"
  shows "is_f32 (of_int m / 4)"
proof -
  have "f32 (of_int m / 4) = of_int m / 4"
    by (rule f32_exact_div [of _ m 2]) (use assms in simp_all)
  moreover have "\<bar>real_of_int m / 4\<bar> < 2 ^ 128"
  proof -
    have "real_of_int \<bar>m\<bar> < real_of_int (2 ^ 24)" using assms by (simp only: of_int_less_iff)
    then have "\<bar>real_of_int m\<bar> < 2 ^ 24" by simp
    then show ?thesis by simp
  qed
  ultimately show ?thesis by (simp add: is_f32_def)
qed

lemma fsub_Fin: "fsub (Fin x) (Fin y) = rnd (x - y)"
  by (simp add: fsub_def)

text \<open>
  The bearings the sketch reaches from 270 by turn steps of 11.25 degrees are multiples
  of a quarter of a degree. Below \<open>2^21\<close> degrees in magnitude they, and the sums and
  differences the turns form, are binary32 values, so there the turns are exact.
\<close>

lemma strafe_left_restores_grid_bearing:
  assumes "player_bearing s = Fin (of_int m / 4)" and "\<bar>m\<bar> < 2 ^ 23"
  shows "player_bearing (strafe_left cs sn d s) = player_bearing s"
proof -
  have "is_f32 (of_int m / 4)" using assms(2) by (intro is_f32_quarter) simp
  moreover have "real_of_int m / 4 - 90 = of_int (m - 360) / 4" by simp
  then have "is_f32 (real_of_int m / 4 - 90)"
    using assms(2) by (simp only:) (intro is_f32_quarter, simp)
  ultimately show ?thesis
    by (simp add: strafe_left_bearing assms(1) fsub_Fin is_f32_rnd)
qed

lemma turn_round_trip_grid_bearing:
  assumes "player_bearing s = Fin (of_int m / 4)" and "a = of_int n / 4"
    and "\<bar>m\<bar> < 2 ^ 23" and "\<bar>n\<bar> < 2 ^ 23"
  shows "player_bearing (turn_left (Fin a) (turn_right (Fin a) s)) = player_bearing s"
proof -
  have "is_f32 (of_int m / 4)" using assms(3) by (intro is_f32_quarter) simp
  moreover have "real_of_int m / 4 + real_of_int n / 4 = of_int (m + n) / 4" by simp
  then have "is_f32 (real_of_int m / 4 + real_of_int n / 4)"
    using assms(3,4) by (simp only:) (intro is_f32_quarter, simp)
  ultimately show ?thesis
    by (simp add: turn_left_def turn_right_def assms(1,2) fsub_Fin is_f32_rnd)
qed

text \<open>
  Claim C7, as amended: \<^verbatim>\<open>strafe_left\<close> ends on the position of
  \<^verbatim>\<open>turn_left(90); step_forward(d); turn_right(90)\<close>, whether the step is accepted or not,
  and it restores a bearing \<open>b\<close> exactly whenever \<open>b\<close> and \<open>b - 90\<close> are binary32 values. In
  general the bearing it leaves is \<open>b - 90\<close> rounded, plus 90, rounded (lemma
  \<open>strafe_left_bearing\<close>).
\<close>

theorem strafe_left_composition:
  "player_x (strafe_left cs sn d s)
     = player_x (turn_right (Fin 90) (step_forward cs sn d (turn_left (Fin 90) s))) \<and>
   player_y (strafe_left cs sn d s)
     = player_y (turn_right (Fin 90) (step_forward cs sn d (turn_left (Fin 90) s))) \<and>
   (player_bearing s = Fin b \<and> is_f32 b \<and> is_f32 (b - 90) \<longrightarrow>
      player_bearing (strafe_left cs sn d s) = player_bearing s)"
  by (simp add: strafe_left_bearing fsub_Fin is_f32_rnd) (simp add: strafe_left_def)

lemma f32_270: "f32 270 = 270"
  using f32_of_int [of 270] by simp

lemma f32_180: "f32 180 = 180"
  using f32_of_int [of 180] by simp

lemma f32_90: "f32 90 = 90"
  using f32_of_int [of 90] by simp

text \<open>
  The initial bearing 270 is restored.
\<close>

theorem strafe_left_composition_witness:
  "player_bearing initial_state = Fin 270 \<and> is_f32 270 \<and> is_f32 (270 - 90) \<and>
   player_bearing (strafe_left exact_cos exact_sin player_walk_speed initial_state) = Fin 270"
  using strafe_left_composition [of exact_cos exact_sin player_walk_speed initial_state 270]
  by (simp add: is_f32_def initial_state_def f32_270 f32_180)

lemma tenth_minus_90: "f32 (- (12066173747 / 134217728)) = - (11783373 / 131072)"
proof -
  have "f32 (- (12066173747 / 134217728)) = of_int (- 11783373) * 2 powi (6 - 23)"
    by (rule f32_eqI) (simp_all add: powi_eval)
  then show ?thesis by (simp add: powi_eval)
qed

lemma tenth_back: "f32 (13107 / 131072) = 13107 / 131072"
  by (rule f32_exact_div [of _ 13107 17]) simp_all

text \<open>
  Claim C7 as stated fails: from the bearing \<open>0.1\<close> (the binary32 value nearest to it),
  \<open>b - 90\<close> is rounded to a multiple of \<open>2^-17\<close>, and the bearing after \<^verbatim>\<open>strafe_left\<close> is
  \<open>13107 / 131072\<close>, not \<open>b\<close>.
\<close>

theorem strafe_left_bearing_counterexample:
  "is_f32 (13421773 / 134217728) \<and>
   player_bearing (strafe_left exact_cos exact_sin player_walk_speed
      (initial_state\<lparr>player_bearing := Fin (13421773 / 134217728)\<rparr>)) = Fin (13107 / 131072) \<and>
   player_bearing (strafe_left exact_cos exact_sin player_walk_speed
      (initial_state\<lparr>player_bearing := Fin (13421773 / 134217728)\<rparr>))
     \<noteq> player_bearing (initial_state\<lparr>player_bearing := Fin (13421773 / 134217728)\<rparr>)"
  by (simp add: strafe_left_bearing fsub_Fin rnd_def is_f32_def f32_walk_speed tenth_minus_90 tenth_back)

text \<open>
  Claim C8, as amended: when the bearing \<open>b\<close> and the sum \<open>b + a\<close> are binary32 values,
  \<^verbatim>\<open>turn_right(a)\<close> followed by \<^verbatim>\<open>turn_left(a)\<close> restores the bearing exactly, so it is
  congruent to \<open>b\<close> modulo 360.
\<close>

theorem turn_right_then_left:
  "player_bearing s = Fin b \<and> is_f32 b \<and> is_f32 (b + a) \<longrightarrow>
     player_bearing (turn_left (Fin a) (turn_right (Fin a) s)) = player_bearing s \<and>
     cong360 (player_bearing (turn_left (Fin a) (turn_right (Fin a) s))) (player_bearing s)"
  by (simp add: turn_left_def turn_right_def fsub_Fin is_f32_rnd)

lemma f32_turn_example: "f32 (1125 / 4) = 1125 / 4"
  by (rule f32_exact_div [of _ 1125 2]) simp_all

text \<open>
  One turn step of 11.25 degrees from the initial bearing and back.
\<close>

theorem turn_right_then_left_witness:
  "player_bearing initial_state = Fin 270 \<and> is_f32 270 \<and> is_f32 (270 + 45 / 4) \<and>
   player_turn_speed = Fin (45 / 4) \<and>
   player_bearing (turn_left player_turn_speed (turn_right player_turn_speed initial_state)) = Fin 270"
  using turn_right_then_left [of initial_state 270 "45 / 4"]
  by (simp add: is_f32_def initial_state_def f32_270 turn_speed_eq f32_turn_example)

lemma big_turn: "f32 1073742094 = 1073742080"
proof -
  have "f32 1073742094 = of_int 8388610 * 2 powi (30 - 23)"
    by (rule f32_eqI) (simp_all add: powi_eval)
  then show ?thesis by (simp add: powi_eval)
qed

lemma f32_256: "f32 256 = 256"
  using f32_of_int [of 256] by simp

lemma f32_2_30: "f32 1073741824 = 1073741824"
  using f32_exact [of 1073741824 1 30] by simp

text \<open>
  Claim C8 as stated fails: \<open>270 + 2^30\<close> is rounded to \<open>2^30 + 256\<close>, so turning right and
  then left by \<open>2^30\<close> degrees leaves the bearing 256, which is not congruent to 270.
\<close>

theorem turn_right_then_left_counterexample:
  "player_bearing initial_state = Fin 270 \<and> is_f32 270 \<and> is_f32 (2 ^ 30) \<and>
   player_bearing (turn_left (Fin (2 ^ 30)) (turn_right (Fin (2 ^ 30)) initial_state)) = Fin 256 \<and>
   \<not> cong360 (player_bearing (turn_left (Fin (2 ^ 30)) (turn_right (Fin (2 ^ 30)) initial_state)))
        (player_bearing initial_state)"
proof -
  have b: "player_bearing (turn_left (Fin (2 ^ 30)) (turn_right (Fin (2 ^ 30)) initial_state)) = Fin 256"
    by (simp add: turn_left_def turn_right_def fsub_Fin rnd_def initial_state_def big_turn f32_256)
  have "\<lfloor>(256 - 270) / 360 :: real\<rfloor> = - 1" by simp
  then have "\<not> cong360 (Fin 256) (Fin 270)"
    unfolding cong360.simps Let_def by simp
  then show ?thesis
    unfolding b by (simp add: is_f32_def initial_state_def f32_270 f32_2_30)
qed

section \<open>Sliver renderer and scan loop: what changes and what does not\<close>

lemma drew_refl: "drew s s"
  unfolding drew_def by (rule exI [of _ "[]"]) simp

lemma drew_trans: "drew s s' \<Longrightarrow> drew s' s'' \<Longrightarrow> drew s s''"
  unfolding drew_def by (elim exE, rule_tac x = "ps @ psa" in exI) simp

lemma drew_fields:
  assumes "drew s s'"
  shows "my_map s' = my_map s" "wall_textures s' = wall_textures s"
    "player_x s' = player_x s" "player_y s' = player_y s" "player_bearing s' = player_bearing s"
    "random_seed s' = random_seed s" "ray_d s' = ray_d s" "serial s' = serial s"
    "tones s' = tones s" "map_reads s' = map_reads s" "samples s' = samples s"
    "slivers s' = slivers s"
  using assms unfolding drew_def by auto

lemma drew_put_pixel: "drew s (put_pixel x y c s)"
  unfolding drew_def put_pixel_def
  by (cases "0 < c") (simp_all, (rule exI [of _ "[(x, y, True)]"], simp), (rule exI [of _ "[(x, y, False)]"], simp))

lemma drew_texture_pixel: "drew s (texture_pixel x wh y s)"
  unfolding texture_pixel_def Let_def by (rule drew_put_pixel)

lemma drew_fold_texture_pixel: "drew s (fold (texture_pixel x wh) ys s)"
proof (induction ys arbitrary: s)
  case Nil
  show ?case by (simp add: drew_refl)
next
  case (Cons y ys)
  have "drew s (texture_pixel x wh y s)" by (rule drew_texture_pixel)
  moreover have "drew (texture_pixel x wh y s) (fold (texture_pixel x wh) ys (texture_pixel x wh y s))"
    by (rule Cons.IH)
  ultimately show ?case by (simp add: drew_trans)
qed

lemma drew_render_sliver:
  "drew (s\<lparr>slivers := slivers s @ [(x, wh, c)]\<rparr>) (render_sliver x wh c s)"
proof -
  define mid where "mid = fdiv (Fin (of_int screen_height)) (Fin 2)"
  define half where "half = fdiv wh (Fin 2)"
  define s0 where "s0 = s\<lparr>slivers := slivers s @ [(x, wh, c)]\<rparr>"
  define s1 where "s1 = put_pixel x (to_int (fsub mid half)) 1 s0"
  define s2 where "s2 = put_pixel x (to_int (fadd mid half)) 1 s1"
  define s3 where "s3 = fold (texture_pixel x wh)
       (texture_rows (to_int (fadd (fsub mid half) (Fin 1))) (fsub (fadd mid half) (Fin 1))) s2"
  have "drew s0 s1" unfolding s1_def by (rule drew_put_pixel)
  moreover have "drew s1 s2" unfolding s2_def by (rule drew_put_pixel)
  moreover have "drew s2 s3" unfolding s3_def by (rule drew_fold_texture_pixel)
  ultimately have "drew s0 s3" by (blast intro: drew_trans)
  moreover have "render_sliver x wh c s = s3"
    by (simp add: render_sliver_def Let_def s3_def s2_def s1_def s0_def mid_def half_def)
  ultimately show ?thesis by (simp add: s0_def)
qed


lemma on_hit_fields:
  "my_map (on_hit sliver wh r x y s) = my_map s"
  "wall_textures (on_hit sliver wh r x y s) = wall_textures s"
  "player_x (on_hit sliver wh r x y s) = player_x s"
  "player_y (on_hit sliver wh r x y s) = player_y s"
  "player_bearing (on_hit sliver wh r x y s) = player_bearing s"
  "serial (on_hit sliver wh r x y s) = serial s"
  "tones (on_hit sliver wh r x y s) = tones s"
  "map_reads (on_hit sliver wh r x y s) = map_reads s"
  "samples (on_hit sliver wh r x y s) = samples s"
  "ray_d (on_hit sliver wh r x y s) = (ray_d s)(sliver \<mapsto> r)"
  "\<exists>c. slivers (on_hit sliver wh r x y s) = slivers s @ [(sliver, Fin wh, c)]"
proof -
  define s2 where "s2 = randomSeed (to_int (fmul (fadd (fmul y (Fin (of_int MAP_X_DIM))) x) (Fin 100)))
      (s\<lparr>ray_d := (ray_d s)(sliver \<mapsto> r)\<rparr>)"
  have "\<exists>c. on_hit sliver wh r x y s = render_sliver sliver (Fin wh) c s2"
    unfolding on_hit_def Let_def s2_def by blast
  then obtain c where c: "on_hit sliver wh r x y s = render_sliver sliver (Fin wh) c s2" ..
  have d: "drew (s2\<lparr>slivers := slivers s2 @ [(sliver, Fin wh, c)]\<rparr>) (on_hit sliver wh r x y s)"
    unfolding c by (rule drew_render_sliver)
  show "my_map (on_hit sliver wh r x y s) = my_map s"
    "wall_textures (on_hit sliver wh r x y s) = wall_textures s"
    "player_x (on_hit sliver wh r x y s) = player_x s"
    "player_y (on_hit sliver wh r x y s) = player_y s"
    "player_bearing (on_hit sliver wh r x y s) = player_bearing s"
    "serial (on_hit sliver wh r x y s) = serial s"
    "tones (on_hit sliver wh r x y s) = tones s"
    "map_reads (on_hit sliver wh r x y s) = map_reads s"
    "samples (on_hit sliver wh r x y s) = samples s"
    "ray_d (on_hit sliver wh r x y s) = (ray_d s)(sliver \<mapsto> r)"
    using drew_fields [OF d] by (simp_all add: s2_def randomSeed_def)
  have "slivers (on_hit sliver wh r x y s) = slivers s @ [(sliver, Fin wh, c)]"
    using drew_fields(12) [OF d] by (simp add: s2_def randomSeed_def)
  then show "\<exists>c. slivers (on_hit sliver wh r x y s) = slivers s @ [(sliver, Fin wh, c)]" ..
qed

lemma scan_done: "\<not> 0 < wh \<Longrightarrow> scan cs sn sliver theta wh s = s"
  by (subst scan.simps) simp

lemma scan_step:
  assumes "0 < wh"
  shows "scan cs sn sliver theta wh s =
    (let x = ray_x cs theta wh s; y = ray_y sn theta wh s;
         s1 = s\<lparr>samples := samples s @ [(sliver, wh, radius wh)]\<rparr>;
         s2 = s1\<lparr>map_reads := map_reads s @ [(to_int x, to_int y)]\<rparr>
     in if outside_map x y then on_hit sliver wh (radius wh) x y s1
        else if my_map s (to_int x) (to_int y) \<noteq> 0 then on_hit sliver wh (radius wh) x y s2
        else scan cs sn sliver theta (wh - 2) s2)"
  using assms
  by (subst scan.simps) (simp add: Let_def radius_def ray_x_def ray_y_def outside_map_def)

lemma is_hit_cong:
  assumes "my_map s' = my_map s" "player_x s' = player_x s" "player_y s' = player_y s"
  shows "is_hit cs sn theta h s' = is_hit cs sn theta h s"
  by (simp add: is_hit_def ray_x_def ray_y_def assms)

lemma ray_cong:
  assumes "player_x s' = player_x s" "player_y s' = player_y s"
  shows "ray_x cs theta h s' = ray_x cs theta h s" "ray_y sn theta h s' = ray_y sn theta h s"
  by (simp_all add: ray_x_def ray_y_def assms)

lemma scan_frame:
  "my_map (scan cs sn sliver theta wh s) = my_map s \<and>
   wall_textures (scan cs sn sliver theta wh s) = wall_textures s \<and>
   player_x (scan cs sn sliver theta wh s) = player_x s \<and>
   player_y (scan cs sn sliver theta wh s) = player_y s \<and>
   player_bearing (scan cs sn sliver theta wh s) = player_bearing s \<and>
   serial (scan cs sn sliver theta wh s) = serial s \<and>
   tones (scan cs sn sliver theta wh s) = tones s"
proof (induction wh arbitrary: s rule: heights.induct)
  case (1 wh)
  show ?case
  proof (cases "0 < wh")
    case False
    then show ?thesis by (simp add: scan_done)
  next
    case True
    show ?thesis
      unfolding scan_step [OF True] Let_def
      by (simp add: on_hit_fields "1.IH" [OF True])
  qed
qed

lemma is_hit_iff:
  "is_hit cs sn theta wh s \<longleftrightarrow>
     outside_map (ray_x cs theta wh s) (ray_y sn theta wh s) \<or>
     my_map s (to_int (ray_x cs theta wh s)) (to_int (ray_y sn theta wh s)) \<noteq> 0"
  by (simp add: is_hit_def Let_def)

lemma is_hit_logged:
  "(\<lambda>h. is_hit cs sn theta h (s\<lparr>samples := a, map_reads := b\<rparr>)) = (\<lambda>h. is_hit cs sn theta h s)"
  by (rule ext) (simp add: is_hit_def ray_x_def ray_y_def)

lemma heights_step: "0 < wh \<Longrightarrow> heights wh = wh # heights (wh - 2)"
  by (subst heights.simps) simp

lemma heights_done: "\<not> 0 < wh \<Longrightarrow> heights wh = []"
  by (subst heights.simps) simp

lemma to_int_in_map:
  assumes "\<not> outside_map x y"
  shows "in_map (to_int x, to_int y)"
proof -
  have x: "0 \<le> to_int x \<and> to_int x < 10"
  proof (cases x)
    case (Fin a)
    then have "0 \<le> a" "a < 10"
      using assms by (simp_all add: outside_map_def MAP_X_DIM_def not_le not_less)
    then show ?thesis by (simp add: Fin trunc_def floor_less_iff)
  qed (use assms in \<open>simp_all add: outside_map_def\<close>)
  have y: "0 \<le> to_int y \<and> to_int y < 10"
  proof (cases y)
    case (Fin a)
    then have "0 \<le> a" "a < 10"
      using assms by (simp_all add: outside_map_def MAP_Y_DIM_def not_le not_less)
    then show ?thesis by (simp add: Fin trunc_def floor_less_iff)
  qed (use assms in \<open>simp_all add: outside_map_def\<close>)
  from x y show ?thesis
    by (simp add: in_map_def MAP_X_DIM_def MAP_Y_DIM_def)
qed

lemma scan_hit:
  assumes "0 < wh" and "is_hit cs sn theta wh s"
  shows "\<exists>rs. (\<forall>p\<in>set rs. in_map p) \<and>
     scan cs sn sliver theta wh s =
       on_hit sliver wh (radius wh) (ray_x cs theta wh s) (ray_y sn theta wh s)
         (s\<lparr>samples := samples s @ [(sliver, wh, radius wh)], map_reads := map_reads s @ rs\<rparr>)"
proof (cases "outside_map (ray_x cs theta wh s) (ray_y sn theta wh s)")
  case True
  then have "scan cs sn sliver theta wh s =
       on_hit sliver wh (radius wh) (ray_x cs theta wh s) (ray_y sn theta wh s)
         (s\<lparr>samples := samples s @ [(sliver, wh, radius wh)], map_reads := map_reads s @ []\<rparr>)"
    unfolding scan_step [OF assms(1)] Let_def by simp
  then show ?thesis by (intro exI [of _ "[]"]) simp
next
  case False
  then have "my_map s (to_int (ray_x cs theta wh s)) (to_int (ray_y sn theta wh s)) \<noteq> 0"
    using assms(2) by (simp add: is_hit_iff)
  then have "scan cs sn sliver theta wh s =
       on_hit sliver wh (radius wh) (ray_x cs theta wh s) (ray_y sn theta wh s)
         (s\<lparr>samples := samples s @ [(sliver, wh, radius wh)],
            map_reads := map_reads s @ [(to_int (ray_x cs theta wh s), to_int (ray_y sn theta wh s))]\<rparr>)"
    unfolding scan_step [OF assms(1)] Let_def using False by simp
  then show ?thesis
    using to_int_in_map [OF False]
    by (intro exI [of _ "[(to_int (ray_x cs theta wh s), to_int (ray_y sn theta wh s))]"]) simp
qed

lemma scan_miss:
  assumes "0 < wh" and "\<not> is_hit cs sn theta wh s"
  shows "in_map (to_int (ray_x cs theta wh s), to_int (ray_y sn theta wh s))"
    and "scan cs sn sliver theta wh s = scan cs sn sliver theta (wh - 2)
         (s\<lparr>samples := samples s @ [(sliver, wh, radius wh)],
            map_reads := map_reads s @ [(to_int (ray_x cs theta wh s), to_int (ray_y sn theta wh s))]\<rparr>)"
proof -
  have out: "\<not> outside_map (ray_x cs theta wh s) (ray_y sn theta wh s)"
    and free: "my_map s (to_int (ray_x cs theta wh s)) (to_int (ray_y sn theta wh s)) = 0"
    using assms(2) by (simp_all add: is_hit_iff)
  show "in_map (to_int (ray_x cs theta wh s), to_int (ray_y sn theta wh s))"
    by (rule to_int_in_map [OF out])
  show "scan cs sn sliver theta wh s = scan cs sn sliver theta (wh - 2)
         (s\<lparr>samples := samples s @ [(sliver, wh, radius wh)],
            map_reads := map_reads s @ [(to_int (ray_x cs theta wh s), to_int (ray_y sn theta wh s))]\<rparr>)"
    unfolding scan_step [OF assms(1)] Let_def using out free by simp
qed

lemma scan_samples:
  "samples (scan cs sn sliver theta wh s) = samples s @
     map (\<lambda>h. (sliver, h, radius h)) (upto_first (\<lambda>h. is_hit cs sn theta h s) (heights wh))"
proof (induction wh arbitrary: s rule: heights.induct)
  case (1 wh)
  show ?case
  proof (cases "0 < wh")
    case False
    then show ?thesis by (simp add: scan_done heights_done)
  next
    case True
    show ?thesis
    proof (cases "is_hit cs sn theta wh s")
      case hit: True
      from scan_hit [OF True hit, of sliver] obtain rs where
        "scan cs sn sliver theta wh s =
           on_hit sliver wh (radius wh) (ray_x cs theta wh s) (ray_y sn theta wh s)
             (s\<lparr>samples := samples s @ [(sliver, wh, radius wh)], map_reads := map_reads s @ rs\<rparr>)"
        by blast
      then have "samples (scan cs sn sliver theta wh s) = samples s @ [(sliver, wh, radius wh)]"
        by (simp only: on_hit_fields(9)) simp
      moreover have "upto_first (\<lambda>h. is_hit cs sn theta h s) (heights wh) = [wh]"
        unfolding heights_step [OF True] using hit by simp
      ultimately show ?thesis by simp
    next
      case miss: False
      have "upto_first (\<lambda>h. is_hit cs sn theta h s) (heights wh)
          = wh # upto_first (\<lambda>h. is_hit cs sn theta h s) (heights (wh - 2))"
        unfolding heights_step [OF True] using miss by simp
      then show ?thesis
        unfolding scan_miss(2) [OF True miss] "1.IH" [OF True] is_hit_logged
        by simp
    qed
  qed
qed

lemma scan_ray_d:
  "ray_d (scan cs sn sliver theta wh s) =
     (case find (\<lambda>h. is_hit cs sn theta h s) (heights wh) of
        None \<Rightarrow> ray_d s | Some h \<Rightarrow> (ray_d s)(sliver \<mapsto> radius h))"
proof (induction wh arbitrary: s rule: heights.induct)
  case (1 wh)
  show ?case
  proof (cases "0 < wh")
    case False
    then show ?thesis by (simp add: scan_done heights_done)
  next
    case True
    show ?thesis
    proof (cases "is_hit cs sn theta wh s")
      case hit: True
      from scan_hit [OF True hit, of sliver] obtain rs where
        "scan cs sn sliver theta wh s =
           on_hit sliver wh (radius wh) (ray_x cs theta wh s) (ray_y sn theta wh s)
             (s\<lparr>samples := samples s @ [(sliver, wh, radius wh)], map_reads := map_reads s @ rs\<rparr>)"
        by blast
      then show ?thesis
        using hit by (simp add: on_hit_fields heights_step [OF True])
    next
      case miss: False
      show ?thesis
        unfolding scan_miss(2) [OF True miss] "1.IH" [OF True] is_hit_logged
        using miss by (simp add: heights_step [OF True] split: option.splits)
    qed
  qed
qed

lemma scan_slivers:
  "\<exists>c. slivers (scan cs sn sliver theta wh s) = slivers s @
     (case find (\<lambda>h. is_hit cs sn theta h s) (heights wh) of
        None \<Rightarrow> [] | Some h \<Rightarrow> [(sliver, Fin h, c)])"
proof (induction wh arbitrary: s rule: heights.induct)
  case (1 wh)
  show ?case
  proof (cases "0 < wh")
    case False
    then show ?thesis by (simp add: scan_done heights_done)
  next
    case True
    show ?thesis
    proof (cases "is_hit cs sn theta wh s")
      case hit: True
      from scan_hit [OF True hit, of sliver] obtain rs where
        eq: "scan cs sn sliver theta wh s =
           on_hit sliver wh (radius wh) (ray_x cs theta wh s) (ray_y sn theta wh s)
             (s\<lparr>samples := samples s @ [(sliver, wh, radius wh)], map_reads := map_reads s @ rs\<rparr>)"
        by blast
      obtain c where "slivers (scan cs sn sliver theta wh s) = slivers s @ [(sliver, Fin wh, c)]"
        unfolding eq using on_hit_fields(11) [of sliver wh "radius wh" _ _
          "s\<lparr>samples := samples s @ [(sliver, wh, radius wh)], map_reads := map_reads s @ rs\<rparr>"]
        by auto
      then show ?thesis
        using hit by (simp add: heights_step [OF True])
    next
      case miss: False
      show ?thesis
        unfolding scan_miss(2) [OF True miss]
        using "1.IH" [OF True, of "s\<lparr>samples := samples s @ [(sliver, wh, radius wh)],
            map_reads := map_reads s @ [(to_int (ray_x cs theta wh s), to_int (ray_y sn theta wh s))]\<rparr>"]
          miss
        by (simp add: heights_step [OF True] is_hit_logged cong: option.case_cong)
    qed
  qed
qed

lemma scan_map_reads:
  "\<exists>rs. map_reads (scan cs sn sliver theta wh s) = map_reads s @ rs \<and> (\<forall>p\<in>set rs. in_map p)"
proof (induction wh arbitrary: s rule: heights.induct)
  case (1 wh)
  show ?case
  proof (cases "0 < wh")
    case False
    then show ?thesis by (simp add: scan_done)
  next
    case True
    show ?thesis
    proof (cases "is_hit cs sn theta wh s")
      case hit: True
      from scan_hit [OF True hit, of sliver] obtain rs where
        rs: "\<forall>p\<in>set rs. in_map p" and
        eq: "scan cs sn sliver theta wh s =
           on_hit sliver wh (radius wh) (ray_x cs theta wh s) (ray_y sn theta wh s)
             (s\<lparr>samples := samples s @ [(sliver, wh, radius wh)], map_reads := map_reads s @ rs\<rparr>)"
        by blast
      have "map_reads (scan cs sn sliver theta wh s) = map_reads s @ rs"
        unfolding eq by (simp add: on_hit_fields)
      with rs show ?thesis by blast
    next
      case miss: False
      define p where "p = (to_int (ray_x cs theta wh s), to_int (ray_y sn theta wh s))"
      define s2 where "s2 = s\<lparr>samples := samples s @ [(sliver, wh, radius wh)],
            map_reads := map_reads s @ [p]\<rparr>"
      have p: "in_map p" unfolding p_def by (rule scan_miss(1) [OF True miss])
      have eq: "scan cs sn sliver theta wh s = scan cs sn sliver theta (wh - 2) s2"
        unfolding s2_def p_def by (rule scan_miss(2) [OF True miss])
      obtain rs where rs: "map_reads (scan cs sn sliver theta (wh - 2) s2) = map_reads s2 @ rs"
        "\<forall>p\<in>set rs. in_map p"
        using "1.IH" [OF True, of s2] by blast
      have "map_reads (scan cs sn sliver theta wh s) = map_reads s @ (p # rs)"
        unfolding eq rs(1) by (simp add: s2_def)
      moreover have "\<forall>q\<in>set (p # rs). in_map q" using p rs(2) by simp
      ultimately show ?thesis by blast
    qed
  qed
qed
section \<open>The wall heights and radii of a scan\<close>

lemma heights_bounds: "h \<in> set (heights wh) \<Longrightarrow> 0 < h \<and> h \<le> wh"
proof (induction wh rule: heights.induct)
  case (1 wh)
  show ?case
  proof (cases "0 < wh")
    case False
    with "1.prems" show ?thesis by (simp add: heights_done)
  next
    case True
    with "1.prems" have "h = wh \<or> h \<in> set (heights (wh - 2))"
      by (simp add: heights_step)
    then show ?thesis
      using "1.IH" [OF True] True by auto
  qed
qed

lemma heights_decreasing: "sorted_wrt (>) (heights wh)"
proof (induction wh rule: heights.induct)
  case (1 wh)
  show ?case
  proof (cases "0 < wh")
    case False
    then show ?thesis by (simp add: heights_done)
  next
    case True
    have "\<forall>h\<in>set (heights (wh - 2)). h < wh"
      using heights_bounds [of _ "wh - 2"] by fastforce
    then show ?thesis
      using "1.IH" [OF True] by (simp add: heights_step [OF True])
  qed
qed

lemma heights_even: "heights (2 * real n) = map (\<lambda>i. 2 * real (n - i)) [0..<n]"
proof (induction n)
  case 0
  show ?case by (simp add: heights_done)
next
  case (Suc n)
  have "heights (2 * real (Suc n)) = 2 * real (Suc n) # heights (2 * real (Suc n) - 2)"
    by (rule heights_step) simp
  also have "2 * real (Suc n) - 2 = 2 * real n" by simp
  also have "[0..<Suc n] = 0 # map Suc [0..<n]"
    by (simp add: upt_conv_Cons map_Suc_upt del: upt_Suc)
  then have "map (\<lambda>i. 2 * real (Suc n - i)) [0..<Suc n]
      = 2 * real (Suc n) # map (\<lambda>i. 2 * real (n - i)) [0..<n]"
    by (simp add: comp_def del: upt_Suc)
  ultimately show ?case using Suc.IH by simp
qed

lemma heights_screen:
  "heights (of_int screen_height) = map (\<lambda>i. 2 * real (32 - i)) [0..<32]"
  using heights_even [of 32] by (simp add: screen_height_def SCREEN_HEIGHT_def)

lemma heights_screen_props:
  assumes "h \<in> set (heights (of_int screen_height))"
  shows "2 \<le> h" "h \<le> of_int screen_height" "\<exists>n. h = of_int n \<and> 2 \<le> n \<and> n \<le> 64"
proof -
  from assms obtain i where i: "i < 32" "h = 2 * real (32 - i)"
    unfolding heights_screen by auto
  then show "2 \<le> h" by simp
  show "h \<le> of_int screen_height"
    using i by (simp add: screen_height_def SCREEN_HEIGHT_def)
  have "h = of_int (2 * int (32 - i))" using i by simp
  moreover have "2 \<le> 2 * int (32 - i)" "2 * int (32 - i) \<le> 64" using i by simp_all
  ultimately show "\<exists>n. h = of_int n \<and> 2 \<le> n \<and> n \<le> 64" by blast
qed

lemma heights_screen_length: "length (heights (of_int screen_height)) = 32"
  by (simp add: heights_screen)

lemma heights_screen_ends:
  "of_int screen_height \<in> set (heights (of_int screen_height))"
  "2 \<in> set (heights (of_int screen_height))"
proof -
  show "of_int screen_height \<in> set (heights (of_int screen_height))"
    by (subst heights_step) (simp_all add: screen_height_def SCREEN_HEIGHT_def)
  have "(2::real) = 2 * real (32 - 31)" by simp
  moreover have "(31::nat) \<in> set [0..<32]" by simp
  ultimately show "2 \<in> set (heights (of_int screen_height))"
    unfolding heights_screen by (metis (no_types, lifting) image_eqI set_map)
qed

lemma wall_height_step_exact:
  assumes "h \<in> set (heights (of_int screen_height))"
  shows "f32 h = h" "f32 (h - 2) = h - 2"
proof -
  from heights_screen_props(3) [OF assms] obtain n where n: "h = of_int n" "2 \<le> n" "n \<le> 64"
    by blast
  show "f32 h = h" unfolding n(1) using n by (intro f32_of_int) simp
  have "h - 2 = of_int (n - 2)" by (simp add: n(1))
  then show "f32 (h - 2) = h - 2" using n by (simp only:) (intro f32_of_int, simp)
qed

lemma upto_first_prefix: "\<exists>ys. xs = upto_first P xs @ ys"
  by (induction xs) auto

lemma upto_first_find:
  "upto_first P xs = (case find P xs of None \<Rightarrow> xs | Some x \<Rightarrow> takeWhile (\<lambda>x. \<not> P x) xs @ [x])"
  by (induction xs) (auto split: option.splits)

lemma f32_64: "f32 64 = 64"
  using f32_of_int [of 64] by simp

lemma f32_1: "f32 1 = 1"
  using f32_of_int [of 1] by simp

lemma f32_32: "f32 32 = 32"
  using f32_of_int [of 32] by simp

lemma rnd_mono:
  assumes "x \<le> y"
  shows "fle (rnd x) (rnd y)"
proof -
  have "f32 x \<le> f32 y" using assms by (rule f32_mono)
  then show ?thesis
    by (cases x rule: rnd_cases; cases y rule: rnd_cases) simp_all
qed

lemma radius_eq: "h \<noteq> 0 \<Longrightarrow> radius h = rnd (64 / h)"
  by (simp add: radius_def screen_height_def SCREEN_HEIGHT_def rnd_def f32_64)

lemma radius_ends: "radius (of_int screen_height) = Fin 1" "radius 2 = Fin 32"
  by (simp_all add: radius_eq screen_height_def SCREEN_HEIGHT_def rnd_def f32_1 f32_32)

lemma radius_finite:
  assumes "1 \<le> h"
  shows "radius h = Fin (f32 (64 / h))"
proof -
  have "64 / h \<le> 64" using assms by (simp add: divide_le_eq)
  moreover have "0 \<le> 64 / h" using assms by simp
  ultimately have "\<bar>64 / h\<bar> \<le> 16777215 * 2 ^ 104" by simp
  then show ?thesis using assms by (simp add: radius_eq rnd_cap)
qed

lemma radius_antimono:
  assumes "0 < h2" and "h2 \<le> h1"
  shows "fle (radius h1) (radius h2)"
proof -
  have "64 / h1 \<le> 64 / h2" using assms by (intro divide_left_mono) simp_all
  then show ?thesis using assms by (simp add: radius_eq rnd_mono)
qed

lemma radius_sorted:
  assumes "sorted_wrt (>) hs" and "\<forall>h\<in>set hs. 0 < h"
  shows "sorted_wrt fle (map radius hs)"
proof -
  have "sorted_wrt (\<lambda>a b. fle (radius a) (radius b)) hs"
    using assms(1)
  proof (rule sorted_wrt_mono_rel [rotated])
    fix a b assume "a \<in> set hs" "b \<in> set hs" "b < a"
    then show "fle (radius a) (radius b)"
      using assms(2) by (intro radius_antimono) simp_all
  qed
  then show ?thesis by (simp add: sorted_wrt_map)
qed

section \<open>The loop over the columns\<close>

lemma columns_done: "\<not> sliver < NUM_SLIVERS \<Longrightarrow> columns cs sn sliver theta s = s"
  by (subst columns.simps) simp

lemma columns_step:
  "sliver < NUM_SLIVERS \<Longrightarrow> columns cs sn sliver theta s =
     columns cs sn (sliver + 1) (fadd theta theta_inc)
       (scan cs sn sliver theta (of_int screen_height) s)"
  by (subst columns.simps) simp

lemma columns_frame:
  "my_map (columns cs sn sliver theta s) = my_map s \<and>
   wall_textures (columns cs sn sliver theta s) = wall_textures s \<and>
   player_x (columns cs sn sliver theta s) = player_x s \<and>
   player_y (columns cs sn sliver theta s) = player_y s \<and>
   player_bearing (columns cs sn sliver theta s) = player_bearing s \<and>
   serial (columns cs sn sliver theta s) = serial s \<and>
   tones (columns cs sn sliver theta s) = tones s"
proof (induction cs sn sliver theta s rule: columns.induct)
  case (1 cs sn sliver theta s)
  show ?case
  proof (cases "sliver < NUM_SLIVERS")
    case False
    then show ?thesis by (simp add: columns_done)
  next
    case True
    show ?thesis
      unfolding columns_step [OF True]
      using "1.IH" [OF True] scan_frame [of cs sn sliver theta "of_int screen_height" s]
      by simp
  qed
qed

lemma columns_map_reads:
  "\<exists>rs. map_reads (columns cs sn sliver theta s) = map_reads s @ rs \<and> (\<forall>p\<in>set rs. in_map p)"
proof (induction cs sn sliver theta s rule: columns.induct)
  case (1 cs sn sliver theta s)
  show ?case
  proof (cases "sliver < NUM_SLIVERS")
    case False
    then show ?thesis by (simp add: columns_done)
  next
    case True
    obtain rs1 where rs1: "map_reads (scan cs sn sliver theta (of_int screen_height) s) = map_reads s @ rs1"
      "\<forall>p\<in>set rs1. in_map p"
      using scan_map_reads by blast
    obtain rs2 where rs2: "map_reads (columns cs sn sliver theta s)
        = map_reads (scan cs sn sliver theta (of_int screen_height) s) @ rs2"
      "\<forall>p\<in>set rs2. in_map p"
      unfolding columns_step [OF True] using "1.IH" [OF True] by blast
    have "map_reads (columns cs sn sliver theta s) = map_reads s @ (rs1 @ rs2)"
      by (simp add: rs1(1) rs2(1))
    moreover have "\<forall>p\<in>set (rs1 @ rs2). in_map p" using rs1(2) rs2(2) by auto
    ultimately show ?thesis by blast
  qed
qed

lemma is_hit_same_world:
  assumes "my_map s = my_map s0" "player_x s = player_x s0" "player_y s = player_y s0"
  shows "(\<lambda>h. is_hit cs sn theta h s) = (\<lambda>h. is_hit cs sn theta h s0)"
  by (rule ext) (simp add: is_hit_def ray_x_def ray_y_def assms)

lemma column_samples_same_world:
  assumes "my_map s = my_map s0" "player_x s = player_x s0" "player_y s = player_y s0"
  shows "column_samples cs sn s sliver theta = column_samples cs sn s0 sliver theta"
  unfolding column_samples_def is_hit_same_world [OF assms] ..

lemma column_theta_shift: "column_theta (fadd theta theta_inc) j = column_theta theta (Suc j)"
  by (induction j) simp_all

lemma upt_Suc_shift: "[0..<Suc n] = 0 # map Suc [0..<n]"
  by (simp add: upt_conv_Cons map_Suc_upt del: upt_Suc)

lemma columns_count:
  "sliver < NUM_SLIVERS \<Longrightarrow> nat (NUM_SLIVERS - sliver) = Suc (nat (NUM_SLIVERS - (sliver + 1)))"
  by simp

text \<open>
  The traces of the loop over the columns, column by column: column \<open>sliver + j\<close> is
  scanned along the angle \<open>column_theta theta j\<close>.
\<close>

lemma columns_trace_samples:
  assumes "my_map s = my_map s0" "player_x s = player_x s0" "player_y s = player_y s0"
  shows "samples (columns cs sn sliver theta s) = samples s @
     concat (map (\<lambda>j. column_samples cs sn s0 (sliver + int j) (column_theta theta j))
       [0..<nat (NUM_SLIVERS - sliver)])"
  using assms
proof (induction cs sn sliver theta s rule: columns.induct)
  case (1 cs sn sliver theta s)
  note world = "1.prems"
  show ?case
  proof (cases "sliver < NUM_SLIVERS")
    case False
    then show ?thesis by (simp add: columns_done)
  next
    case True
    define s1 where "s1 = scan cs sn sliver theta (of_int screen_height) s"
    have s1: "samples s1 = samples s @ column_samples cs sn s0 sliver theta"
      unfolding s1_def scan_samples column_samples_def is_hit_same_world [OF world] ..
    have w1: "my_map s1 = my_map s0" "player_x s1 = player_x s0" "player_y s1 = player_y s0"
      unfolding s1_def using scan_frame [of cs sn sliver theta "of_int screen_height" s] world
      by simp_all
    have "samples (columns cs sn sliver theta s) = samples s1 @
       concat (map (\<lambda>j. column_samples cs sn s0 (sliver + 1 + int j) (column_theta (fadd theta theta_inc) j))
         [0..<nat (NUM_SLIVERS - (sliver + 1))])"
      unfolding columns_step [OF True] s1_def [symmetric]
      using "1.IH" [OF True, folded s1_def, OF w1] .
    then show ?thesis
      unfolding columns_count [OF True] upt_Suc_shift s1 column_theta_shift
      by (simp add: comp_def add.assoc)
  qed
qed

lemma columns_trace_slivers:
  assumes "my_map s = my_map s0" "player_x s = player_x s0" "player_y s = player_y s0"
  shows "\<exists>cf. slivers (columns cs sn sliver theta s) = slivers s @
     concat (map (\<lambda>j. case find (\<lambda>h. is_hit cs sn (column_theta theta j) h s0)
                         (heights (of_int screen_height)) of
                       None \<Rightarrow> [] | Some h \<Rightarrow> [(sliver + int j, Fin h, cf j)])
       [0..<nat (NUM_SLIVERS - sliver)])"
  using assms
proof (induction cs sn sliver theta s rule: columns.induct)
  case (1 cs sn sliver theta s)
  note world = "1.prems"
  show ?case
  proof (cases "sliver < NUM_SLIVERS")
    case False
    then show ?thesis by (simp add: columns_done)
  next
    case True
    define hs where "hs = heights (of_int screen_height)"
    define s1 where "s1 = scan cs sn sliver theta (of_int screen_height) s"
    obtain c where c: "slivers s1 = slivers s @
        (case find (\<lambda>h. is_hit cs sn theta h s0) hs of None \<Rightarrow> [] | Some h \<Rightarrow> [(sliver, Fin h, c)])"
      using scan_slivers [of cs sn sliver theta "of_int screen_height" s]
      unfolding s1_def hs_def is_hit_same_world [OF world] by blast
    have w1: "my_map s1 = my_map s0" "player_x s1 = player_x s0" "player_y s1 = player_y s0"
      unfolding s1_def using scan_frame [of cs sn sliver theta "of_int screen_height" s] world
      by simp_all
    obtain cf where cf: "slivers (columns cs sn sliver theta s) = slivers s1 @
       concat (map (\<lambda>j. case find (\<lambda>h. is_hit cs sn (column_theta (fadd theta theta_inc) j) h s0) hs of
                         None \<Rightarrow> [] | Some h \<Rightarrow> [(sliver + 1 + int j, Fin h, cf j)])
         [0..<nat (NUM_SLIVERS - (sliver + 1))])"
      unfolding columns_step [OF True] s1_def [symmetric] hs_def
      using "1.IH" [OF True, folded s1_def, OF w1] by blast
    define cf' where "cf' = case_nat c cf"
    have "slivers (columns cs sn sliver theta s) = slivers s @
       concat (map (\<lambda>j. case find (\<lambda>h. is_hit cs sn (column_theta theta j) h s0) hs of
                         None \<Rightarrow> [] | Some h \<Rightarrow> [(sliver + int j, Fin h, cf' j)])
         [0..<nat (NUM_SLIVERS - sliver)])"
      unfolding columns_count [OF True] upt_Suc_shift cf c column_theta_shift cf'_def
      by (simp add: comp_def add.assoc cong: option.case_cong)
    then show ?thesis unfolding hs_def by blast
  qed
qed

lemma scan_ray_d_other:
  "i \<noteq> sliver \<Longrightarrow> ray_d (scan cs sn sliver theta wh s) i = ray_d s i"
  unfolding scan_ray_d by (simp split: option.splits)

lemma columns_ray_d_other:
  "i < sliver \<Longrightarrow> ray_d (columns cs sn sliver theta s) i = ray_d s i"
proof (induction cs sn sliver theta s rule: columns.induct)
  case (1 cs sn sliver theta s)
  show ?case
  proof (cases "sliver < NUM_SLIVERS")
    case False
    then show ?thesis by (simp add: columns_done)
  next
    case True
    have "ray_d (columns cs sn sliver theta s) i
        = ray_d (scan cs sn sliver theta (of_int screen_height) s) i"
      unfolding columns_step [OF True] using "1.IH" [OF True] "1.prems" by simp
    then show ?thesis using "1.prems" by (simp add: scan_ray_d_other)
  qed
qed

lemma columns_trace_ray_d:
  assumes "my_map s = my_map s0" "player_x s = player_x s0" "player_y s = player_y s0"
    and "sliver \<le> i" "i < NUM_SLIVERS"
  shows "ray_d (columns cs sn sliver theta s) i =
     (case find (\<lambda>h. is_hit cs sn (column_theta theta (nat (i - sliver))) h s0)
             (heights (of_int screen_height)) of
        None \<Rightarrow> ray_d s i | Some h \<Rightarrow> Some (radius h))"
  using assms
proof (induction cs sn sliver theta s rule: columns.induct)
  case (1 cs sn sliver theta s)
  note world = "1.prems"(1-3) and i = "1.prems"(4,5)
  have True: "sliver < NUM_SLIVERS" using i by simp
  define s1 where "s1 = scan cs sn sliver theta (of_int screen_height) s"
  have w1: "my_map s1 = my_map s0" "player_x s1 = player_x s0" "player_y s1 = player_y s0"
    unfolding s1_def using scan_frame [of cs sn sliver theta "of_int screen_height" s] world
    by simp_all
  show ?case
  proof (cases "i = sliver")
    case same: True
    have "ray_d (columns cs sn sliver theta s) i = ray_d s1 i"
      unfolding columns_step [OF True] s1_def [symmetric]
      by (rule columns_ray_d_other) (simp add: same)
    also have "\<dots> = (case find (\<lambda>h. is_hit cs sn theta h s0) (heights (of_int screen_height)) of
        None \<Rightarrow> ray_d s i | Some h \<Rightarrow> Some (radius h))"
      unfolding s1_def scan_ray_d is_hit_same_world [OF world]
      by (simp add: same split: option.splits)
    finally show ?thesis by (simp add: same)
  next
    case other: False
    then have lt: "sliver + 1 \<le> i" using i by simp
    have idx: "Suc (nat (i - (sliver + 1))) = nat (i - sliver)" using lt by simp
    have "ray_d (columns cs sn sliver theta s) i =
       (case find (\<lambda>h. is_hit cs sn (column_theta (fadd theta theta_inc) (nat (i - (sliver + 1)))) h s0)
             (heights (of_int screen_height)) of
          None \<Rightarrow> ray_d s1 i | Some h \<Rightarrow> Some (radius h))"
      unfolding columns_step [OF True] s1_def [symmetric]
      using "1.IH" [OF True, folded s1_def, OF w1 lt i(2)] .
    moreover have "ray_d s1 i = ray_d s i"
      unfolding s1_def using other by (rule scan_ray_d_other)
    ultimately show ?thesis
      unfolding column_theta_shift idx by (simp cong: option.case_cong)
  qed
qed

lemma columns_samples:
  "\<exists>new. samples (columns cs sn sliver theta s) = samples s @ new \<and>
     (\<forall>e\<in>set new. fst (snd e) \<in> set (heights (of_int screen_height)) \<and>
        snd (snd e) = radius (fst (snd e)))"
proof -
  define hs where "hs = heights (of_int screen_height)"
  define new where "new = concat (map (\<lambda>j. column_samples cs sn s (sliver + int j) (column_theta theta j))
       [0..<nat (NUM_SLIVERS - sliver)])"
  have eq: "samples (columns cs sn sliver theta s) = samples s @ new"
    unfolding new_def by (rule columns_trace_samples) simp_all
  have "\<forall>e\<in>set new. fst (snd e) \<in> set hs \<and> snd (snd e) = radius (fst (snd e))"
  proof
    fix e assume "e \<in> set new"
    then obtain i th where "e \<in> set (column_samples cs sn s i th)"
      unfolding new_def by auto
    then obtain h where h: "h \<in> set (upto_first (\<lambda>h. is_hit cs sn th h s) hs)" "e = (i, h, radius h)"
      unfolding column_samples_def hs_def by auto
    obtain ys where "hs = upto_first (\<lambda>h. is_hit cs sn th h s) hs @ ys"
      using upto_first_prefix by blast
    then have "set (upto_first (\<lambda>h. is_hit cs sn th h s) hs) \<subseteq> set hs"
      by (metis Un_upper1 set_append)
    with h show "fst (snd e) \<in> set hs \<and> snd (snd e) = radius (fst (snd e))" by auto
  qed
  with eq show ?thesis unfolding hs_def by blast
qed


lemma ray_cast_slivers:
  "\<exists>cf. slivers (ray_cast cs sn s) = slivers s @
     concat (map (\<lambda>j. case column_hit cs sn s j of
                       None \<Rightarrow> [] | Some h \<Rightarrow> [(int j, Fin h, cf j)])
       [0..<nat NUM_SLIVERS])"
  unfolding ray_cast_def Let_def first_theta_def [symmetric] column_hit_def
  using columns_trace_slivers [of "s\<lparr>ray_d := Map.empty\<rparr>" s cs sn 0 "first_theta s"]
  by (simp cong: option.case_cong)

lemma ray_cast_ray_d:
  assumes "j < nat NUM_SLIVERS"
  shows "ray_d (ray_cast cs sn s) (int j) =
     (case column_hit cs sn s j of None \<Rightarrow> None | Some h \<Rightarrow> Some (radius h))"
  unfolding ray_cast_def Let_def first_theta_def [symmetric] column_hit_def
  using columns_trace_ray_d [of "s\<lparr>ray_d := Map.empty\<rparr>" s 0 "int j" cs sn "first_theta s"] assms
  by (simp cong: option.case_cong)

lemma filter_concat_none:
  assumes "\<And>j e. j < n \<Longrightarrow> e \<in> set (f j) \<Longrightarrow> \<not> P e"
  shows "filter P (concat (map f [0..<n])) = []"
  using assms by (auto simp: filter_empty_conv)

lemma filter_concat_column:
  assumes "\<And>j e. e \<in> set (f j) \<Longrightarrow> key e = int j" and "j < n"
  shows "filter (\<lambda>e. key e = int j) (concat (map f [0..<n])) = f j"
  using assms(2)
proof (induction n)
  case 0
  then show ?case by simp
next
  case (Suc n)
  show ?case
  proof (cases "j = n")
    case True
    have "filter (\<lambda>e. key e = int j) (concat (map f [0..<n])) = []"
      by (rule filter_concat_none) (use assms(1) True in auto)
    moreover have "filter (\<lambda>e. key e = int j) (f n) = f n"
      using assms(1) True by (auto simp: filter_id_conv)
    ultimately show ?thesis using True by simp
  next
    case False
    then have "j < n" using Suc.prems by simp
    moreover have "filter (\<lambda>e. key e = int j) (f n) = []"
      using assms(1) False by (auto simp: filter_empty_conv)
    ultimately show ?thesis using Suc.IH by simp
  qed
qed

lemma map_int_upt: "map int [0..<n] = [0..int n - 1]"
proof (induction n)
  case 0
  show ?case by simp
next
  case (Suc n)
  have "[0..int (Suc n) - 1] = [0..int n - 1] @ [int n]"
    using upto_rec2 [of 0 "int n"] by simp
  then show ?case using Suc.IH by simp
qed

section \<open>Rays leave the map\<close>

lemma f32_ge_int:
  assumes "real_of_int n \<le> x" and "\<bar>n\<bar> < 2 ^ 24"
  shows "real_of_int n \<le> f32 x"
  using f32_mono [OF assms(1)] f32_of_int [OF assms(2)] by simp

lemma f32_le_int:
  assumes "x \<le> real_of_int n" and "\<bar>n\<bar> < 2 ^ 24"
  shows "f32 x \<le> real_of_int n"
  using f32_mono [OF assms(1)] f32_of_int [OF assms(2)] by simp

lemma libm_finite:
  assumes "libm_accurate cs sn"
  obtains c d where "cs (Fin t) = Fin c" "sn (Fin t) = Fin d" "\<bar>c\<bar> \<le> 2" "\<bar>d\<bar> \<le> 2"
    "1 / 2 \<le> \<bar>c\<bar> \<or> 1 / 2 \<le> \<bar>d\<bar>"
proof -
  obtain c d u where cd: "cs (Fin t) = Fin c" "sn (Fin t) = Fin d"
    and u: "\<bar>c - cos u\<bar> \<le> 1 / 100" "\<bar>d - sin u\<bar> \<le> 1 / 100"
    using assms unfolding libm_accurate_def by blast
  have "\<bar>cos u\<bar> \<le> 1" "\<bar>sin u\<bar> \<le> 1" by simp_all
  with u have b: "\<bar>c\<bar> \<le> 2" "\<bar>d\<bar> \<le> 2" by linarith+
  have "1 / 2 \<le> \<bar>c\<bar> \<or> 1 / 2 \<le> \<bar>d\<bar>"
  proof (rule ccontr)
    assume "\<not> (1 / 2 \<le> \<bar>c\<bar> \<or> 1 / 2 \<le> \<bar>d\<bar>)"
    then have small: "\<bar>c\<bar> < 1 / 2" "\<bar>d\<bar> < 1 / 2" by simp_all
    with u have c: "\<bar>cos u\<bar> < 51 / 100" and s: "\<bar>sin u\<bar> < 51 / 100" by linarith+
    have "(cos u)\<^sup>2 = \<bar>cos u\<bar>\<^sup>2" "(sin u)\<^sup>2 = \<bar>sin u\<bar>\<^sup>2" by simp_all
    moreover have "\<bar>cos u\<bar>\<^sup>2 < (51 / 100)\<^sup>2" using c by (intro power_strict_mono) simp_all
    moreover have "\<bar>sin u\<bar>\<^sup>2 < (51 / 100)\<^sup>2" using s by (intro power_strict_mono) simp_all
    ultimately have "(sin u)\<^sup>2 + (cos u)\<^sup>2 < 2 * (51 / 100)\<^sup>2" by linarith
    also have "\<dots> < 1" by (simp add: power2_eq_square)
    finally show False by simp
  qed
  with cd b show ?thesis by (rule that)
qed

lemma axis_escape_inside:
  assumes c: "1 / 2 \<le> \<bar>c\<bar>" and p: "0 < p" "p < 10"
  shows "f32 (p + f32 (32 * c)) < 0 \<or> 10 \<le> f32 (p + f32 (32 * c))"
proof (cases "0 \<le> c")
  case True
  with c have "real_of_int 16 \<le> 32 * c" by simp
  then have "real_of_int 16 \<le> f32 (32 * c)" by (rule f32_ge_int) simp
  with p have "real_of_int 16 \<le> p + f32 (32 * c)" by simp
  then have "real_of_int 16 \<le> f32 (p + f32 (32 * c))" by (rule f32_ge_int) simp
  then show ?thesis by simp
next
  case False
  with c have "32 * c \<le> real_of_int (- 16)" by simp
  then have "f32 (32 * c) \<le> real_of_int (- 16)" by (rule f32_le_int) simp
  with p have "p + f32 (32 * c) \<le> real_of_int (- 6)" by simp
  then have "f32 (p + f32 (32 * c)) \<le> real_of_int (- 6)" by (rule f32_le_int) simp
  then show ?thesis by simp
qed

lemma axis_escape:
  assumes c: "1 / 2 \<le> \<bar>c\<bar>" "\<bar>c\<bar> \<le> 2"
  shows "f32 (p + f32 (1 * c)) < 0 \<or> 10 \<le> f32 (p + f32 (1 * c)) \<or>
         f32 (p + f32 (32 * c)) < 0 \<or> 10 \<le> f32 (p + f32 (32 * c))"
proof (rule ccontr)
  assume "\<not> ?thesis"
  then have near: "0 \<le> f32 (p + f32 (1 * c))" "f32 (p + f32 (1 * c)) < 10"
    and far: "0 \<le> f32 (p + f32 (32 * c))" "f32 (p + f32 (32 * c)) < 10"
    by (simp_all add: not_less not_le)
  show False
  proof (cases "0 \<le> c")
    case True
    have "f32 (1 * c) \<le> real_of_int 2" using c True by (intro f32_le_int) simp_all
    moreover have "\<not> p + f32 (1 * c) \<le> real_of_int (- 1)"
    proof
      assume "p + f32 (1 * c) \<le> real_of_int (- 1)"
      then have "f32 (p + f32 (1 * c)) \<le> real_of_int (- 1)" by (rule f32_le_int) simp
      with near show False by simp
    qed
    ultimately have p: "- 3 \<le> p" by simp
    from c True have "real_of_int 16 \<le> 32 * c" by simp
    then have "real_of_int 16 \<le> f32 (32 * c)" by (rule f32_ge_int) simp
    with p have "real_of_int 13 \<le> p + f32 (32 * c)" by simp
    then have "real_of_int 13 \<le> f32 (p + f32 (32 * c))" by (rule f32_ge_int) simp
    with far show False by simp
  next
    case False
    have "real_of_int (- 2) \<le> f32 (1 * c)" using c False by (intro f32_ge_int) simp_all
    moreover have "\<not> real_of_int 10 \<le> p + f32 (1 * c)"
    proof
      assume "real_of_int 10 \<le> p + f32 (1 * c)"
      then have "real_of_int 10 \<le> f32 (p + f32 (1 * c))" by (rule f32_ge_int) simp
      with near show False by simp
    qed
    ultimately have p: "p \<le> 12" by simp
    from c False have "32 * c \<le> real_of_int (- 16)" by simp
    then have "f32 (32 * c) \<le> real_of_int (- 16)" by (rule f32_le_int) simp
    with p have "p + f32 (32 * c) \<le> real_of_int (- 4)" by simp
    then have "f32 (p + f32 (32 * c)) \<le> real_of_int (- 4)" by (rule f32_le_int) simp
    with far show False by simp
  qed
qed

text \<open>
  The angles of the columns stay finite, and so do their values in radians, when the
  bearing is at most \<open>2^126\<close> in magnitude: \<^verbatim>\<open>theta * PI\<close> overflows only beyond
  \<open>1.08 * 10^38\<close>, between \<open>2^126\<close> and \<open>2^127\<close>.
\<close>

lemma radians_finite:
  assumes "\<bar>t\<bar> \<le> 8388737 * 2 ^ 103"
  obtains t' where "fdiv (fmul (Fin t) PI) (Fin 180) = Fin t'"
proof -
  define z where "z = f32 (t * (13176795 / 4194304))"
  have "\<bar>t * (13176795 / 4194304)\<bar> = \<bar>t\<bar> * (13176795 / 4194304)"
    by (simp add: abs_mult)
  also have "\<dots> \<le> (8388737 * 2 ^ 103) * (13176795 / 4194304)"
    using assms by (intro mult_right_mono) simp_all
  also have "\<dots> \<le> 16777215 * 2 ^ 104" by simp
  finally have b: "\<bar>t * (13176795 / 4194304)\<bar> \<le> 16777215 * 2 ^ 104" .
  have m: "fmul (Fin t) PI = Fin z"
    unfolding PI_eq z_def using rnd_cap [OF b] by simp
  have zb: "\<bar>z\<bar> \<le> 16777215 * 2 ^ 104"
    unfolding z_def using b f32_max by (rule f32_cap)
  have "\<bar>z / 180\<bar> \<le> \<bar>z\<bar>" by simp
  with zb have "\<bar>z / 180\<bar> \<le> 16777215 * 2 ^ 104" by linarith
  then have "fdiv (Fin z) (Fin 180) = Fin (f32 (z / 180))"
    using rnd_cap [of "z / 180"] by simp
  then show ?thesis unfolding m [symmetric] by (rule that)
qed

lemma f32_45: "f32 45 = 45"
  using f32_of_int [of 45] by simp

lemma first_theta_eq:
  assumes "player_bearing s = Fin b"
  shows "first_theta s = rnd (b - 45)"
  by (simp add: first_theta_def assms FOV_def fsub_def rnd_def f32_45)

lemma angle_cap:
  assumes "\<bar>x\<bar> \<le> of_int m * 2 ^ 103" and "\<bar>m\<bar> < 2 ^ 24"
  shows "rnd x = Fin (f32 x) \<and> \<bar>f32 x\<bar> \<le> of_int m * 2 ^ 103"
proof -
  have e: "f32 (of_int m * 2 ^ 103) = of_int m * 2 ^ 103"
    using f32_exact [of "of_int m * 2 ^ 103" m 103] assms(2) by simp
  have c: "\<bar>f32 x\<bar> \<le> of_int m * 2 ^ 103"
    using assms(1) e by (rule f32_cap)
  have "real_of_int m \<le> \<bar>real_of_int m\<bar>" by simp
  also have "\<bar>real_of_int m\<bar> = real_of_int \<bar>m\<bar>" by simp
  also have "\<dots> < real_of_int (2 ^ 24)" using assms(2) by (simp only: of_int_less_iff)
  finally have "real_of_int m * 2 ^ 103 < 2 ^ 24 * 2 ^ 103" by simp
  also have "\<dots> < (2::real) ^ 128" by simp
  finally have "\<bar>f32 x\<bar> < 2 ^ 128" using c by linarith
  then show ?thesis using c by (simp add: rnd_fin)
qed

lemma first_theta_bounded:
  assumes "player_bearing s = Fin b" and "\<bar>b\<bar> \<le> 2 ^ 126"
  obtains t where "first_theta s = Fin t" "\<bar>t\<bar> \<le> 8388609 * 2 ^ 103"
proof -
  have "\<bar>b - 45\<bar> \<le> 2 ^ 126 + 45" using assms(2) by linarith
  also have "\<dots> \<le> real_of_int 8388609 * 2 ^ 103" by simp
  finally have "rnd (b - 45) = Fin (f32 (b - 45)) \<and> \<bar>f32 (b - 45)\<bar> \<le> real_of_int 8388609 * 2 ^ 103"
    by (rule angle_cap) simp
  then show ?thesis
    using that [of "f32 (b - 45)"] by (simp add: first_theta_eq [OF assms(1)])
qed

lemma column_theta_bounded:
  assumes "\<bar>t\<bar> \<le> 8388609 * 2 ^ 103" and "j \<le> 128"
  shows "\<exists>t'. column_theta (Fin t) j = Fin t' \<and> \<bar>t'\<bar> \<le> of_int (8388609 + int j) * 2 ^ 103"
  using assms(2)
proof (induction j)
  case 0
  show ?case using assms(1) by simp
next
  case (Suc j)
  then obtain t' where t': "column_theta (Fin t) j = Fin t'"
    "\<bar>t'\<bar> \<le> of_int (8388609 + int j) * 2 ^ 103"
    by auto
  have "\<bar>t' + 45 / 64\<bar> \<le> \<bar>t'\<bar> + 1" by linarith
  also have "\<dots> \<le> of_int (8388609 + int j) * 2 ^ 103 + 1 * 2 ^ 103"
    using t'(2) by simp
  also have "\<dots> = of_int (8388609 + int (Suc j)) * 2 ^ 103"
    by (simp add: algebra_simps)
  finally have "rnd (t' + 45 / 64) = Fin (f32 (t' + 45 / 64)) \<and>
      \<bar>f32 (t' + 45 / 64)\<bar> \<le> of_int (8388609 + int (Suc j)) * 2 ^ 103"
    by (rule angle_cap) (use Suc.prems in simp)
  then show ?case
    by (simp add: t'(1) theta_inc_eq)
qed

lemma column_theta_in_range:
  assumes "player_bearing s = Fin b" and "\<bar>b\<bar> \<le> 2 ^ 126" and "j \<le> 128"
  obtains t where "column_theta (first_theta s) j = Fin t" "\<bar>t\<bar> \<le> 8388737 * 2 ^ 103"
proof -
  obtain t0 where t0: "first_theta s = Fin t0" "\<bar>t0\<bar> \<le> 8388609 * 2 ^ 103"
    using assms(1,2) by (rule first_theta_bounded)
  obtain t where t: "column_theta (Fin t0) j = Fin t" "\<bar>t\<bar> \<le> of_int (8388609 + int j) * 2 ^ 103"
    using column_theta_bounded [OF t0(2) assms(3)] by blast
  have "real_of_int (8388609 + int j) \<le> 8388737" using assms(3) by simp
  then have "real_of_int (8388609 + int j) * 2 ^ 103 \<le> 8388737 * 2 ^ 103"
    by (intro mult_right_mono) simp_all
  with t(2) have "\<bar>t\<bar> \<le> 8388737 * 2 ^ 103" by linarith
  with t(1) show ?thesis unfolding t0(1) [symmetric] by (rule that)
qed

text \<open>
  The sampled points at the two ends of a scan. With a finite position and a finite
  cosine the sum may still round to an infinity; the comparisons of the bounds test see
  the rounded real number either way.
\<close>

lemma outside_map_rnd:
  "outside_map (rnd a) (rnd b) \<longleftrightarrow> f32 a < 0 \<or> f32 b < 0 \<or> 10 \<le> f32 a \<or> 10 \<le> f32 b"
  by (simp add: outside_map_def MAP_X_DIM_def MAP_Y_DIM_def flt_rnd_left fle_rnd_right)

lemma rnd_small: "\<bar>x\<bar> \<le> 64 \<Longrightarrow> rnd x = Fin (f32 x)"
  by (rule rnd_cap) simp

lemma ray_ends:
  assumes "player_x s = Fin px" "player_y s = Fin py"
    and "cs (fdiv (fmul theta PI) (Fin 180)) = Fin c" "sn (fdiv (fmul theta PI) (Fin 180)) = Fin d"
    and "\<bar>c\<bar> \<le> 2" "\<bar>d\<bar> \<le> 2"
  shows "ray_x cs theta 2 s = rnd (px + f32 (32 * c))"
    "ray_y sn theta 2 s = rnd (py + f32 (32 * d))"
    "ray_x cs theta (of_int screen_height) s = rnd (px + f32 (1 * c))"
    "ray_y sn theta (of_int screen_height) s = rnd (py + f32 (1 * d))"
proof -
  have "\<bar>32 * c\<bar> \<le> 64" "\<bar>32 * d\<bar> \<le> 64" "\<bar>1 * c\<bar> \<le> 64" "\<bar>1 * d\<bar> \<le> 64"
    using assms(5,6) by simp_all
  then have r: "rnd (32 * c) = Fin (f32 (32 * c))" "rnd (32 * d) = Fin (f32 (32 * d))"
    "rnd c = Fin (f32 c)" "rnd d = Fin (f32 d)"
    using rnd_small [of "32 * c"] rnd_small [of "32 * d"] rnd_small [of c] rnd_small [of d]
    by simp_all
  show "ray_x cs theta 2 s = rnd (px + f32 (32 * c))"
    "ray_y sn theta 2 s = rnd (py + f32 (32 * d))"
    "ray_x cs theta (of_int screen_height) s = rnd (px + f32 (1 * c))"
    "ray_y sn theta (of_int screen_height) s = rnd (py + f32 (1 * d))"
    by (simp_all add: ray_x_def ray_y_def radius_ends assms(1-4) r)
qed

lemma far_sample_outside:
  assumes "libm_accurate cs sn"
    and "player_x s = Fin px" "0 < px" "px < 10"
    and "player_y s = Fin py" "0 < py" "py < 10"
    and "\<bar>t\<bar> \<le> 8388737 * 2 ^ 103"
  shows "outside_map (ray_x cs (Fin t) 2 s) (ray_y sn (Fin t) 2 s)"
proof -
  obtain t' where t': "fdiv (fmul (Fin t) PI) (Fin 180) = Fin t'"
    using assms(8) by (rule radians_finite)
  obtain c d where cd: "cs (Fin t') = Fin c" "sn (Fin t') = Fin d" "\<bar>c\<bar> \<le> 2" "\<bar>d\<bar> \<le> 2"
    "1 / 2 \<le> \<bar>c\<bar> \<or> 1 / 2 \<le> \<bar>d\<bar>"
    using assms(1) by (rule libm_finite)
  note e = ray_ends(1,2) [where cs = cs and sn = sn and theta = "Fin t", OF assms(2,5) cd(1,2) [folded t'] cd(3,4)]
  from cd(5) show ?thesis
  proof
    assume "1 / 2 \<le> \<bar>c\<bar>"
    from axis_escape_inside [OF this assms(3,4)]
    show ?thesis unfolding e outside_map_rnd by auto
  next
    assume "1 / 2 \<le> \<bar>d\<bar>"
    from axis_escape_inside [OF this assms(6,7)]
    show ?thesis unfolding e outside_map_rnd by auto
  qed
qed

lemma some_sample_outside:
  assumes "libm_accurate cs sn"
    and "player_x s = Fin px" "player_y s = Fin py"
    and "\<bar>t\<bar> \<le> 8388737 * 2 ^ 103"
  shows "outside_map (ray_x cs (Fin t) (of_int screen_height) s) (ray_y sn (Fin t) (of_int screen_height) s) \<or>
         outside_map (ray_x cs (Fin t) 2 s) (ray_y sn (Fin t) 2 s)"
proof -
  obtain t' where t': "fdiv (fmul (Fin t) PI) (Fin 180) = Fin t'"
    using assms(4) by (rule radians_finite)
  obtain c d where cd: "cs (Fin t') = Fin c" "sn (Fin t') = Fin d" "\<bar>c\<bar> \<le> 2" "\<bar>d\<bar> \<le> 2"
    "1 / 2 \<le> \<bar>c\<bar> \<or> 1 / 2 \<le> \<bar>d\<bar>"
    using assms(1) by (rule libm_finite)
  note e = ray_ends [where cs = cs and sn = sn and theta = "Fin t", OF assms(2,3) cd(1,2) [folded t'] cd(3,4)]
  from cd(5) show ?thesis
  proof
    assume "1 / 2 \<le> \<bar>c\<bar>"
    from axis_escape [OF this cd(3), of px]
    show ?thesis unfolding e outside_map_rnd by auto
  next
    assume "1 / 2 \<le> \<bar>d\<bar>"
    from axis_escape [OF this cd(4), of py]
    show ?thesis unfolding e outside_map_rnd by auto
  qed
qed

lemma find_hit_exists:
  assumes "h \<in> set hs" and "P h"
  shows "find P hs \<noteq> None"
  using assms by (auto simp: find_None_iff)

lemma is_hit_outside:
  "outside_map (ray_x cs theta h s) (ray_y sn theta h s) \<Longrightarrow> is_hit cs sn theta h s"
  by (simp add: is_hit_iff)

lemma every_column_hits:
  assumes "libm_accurate cs sn"
    and "player_x s = Fin px" "player_y s = Fin py"
    and "player_bearing s = Fin b" "\<bar>b\<bar> \<le> 2 ^ 126"
    and "j < nat NUM_SLIVERS"
  shows "column_hit cs sn s j \<noteq> None"
proof -
  have "j \<le> 128" using assms(6) by (simp add: NUM_SLIVERS_def screen_width_def SCREEN_WIDTH_def)
  with assms(4,5) obtain t where t: "column_theta (first_theta s) j = Fin t" "\<bar>t\<bar> \<le> 8388737 * 2 ^ 103"
    by (rule column_theta_in_range)
  from some_sample_outside [OF assms(1-3) t(2)]
  have "is_hit cs sn (Fin t) (of_int screen_height) s \<or> is_hit cs sn (Fin t) 2 s"
    by (auto intro: is_hit_outside)
  then show ?thesis
    unfolding column_hit_def t(1)
  proof
    assume "is_hit cs sn (Fin t) (of_int screen_height) s"
    with heights_screen_ends(1)
    show "find (\<lambda>h. is_hit cs sn (Fin t) h s) (heights (of_int screen_height)) \<noteq> None"
      by (rule find_hit_exists)
  next
    assume "is_hit cs sn (Fin t) 2 s"
    with heights_screen_ends(2)
    show "find (\<lambda>h. is_hit cs sn (Fin t) h s) (heights (of_int screen_height)) \<noteq> None"
      by (rule find_hit_exists)
  qed
qed

text \<open>
  The exact cosine and sine are accurate in this sense, and so is a library that returns
  them correctly rounded.
\<close>

lemma libm_accurate_exact: "libm_accurate exact_cos exact_sin"
  unfolding libm_accurate_def
proof
  fix t :: real
  have "exact_cos (Fin t) = Fin (cos t) \<and> exact_sin (Fin t) = Fin (sin t) \<and>
      \<bar>cos t - cos t\<bar> \<le> 1 / 100 \<and> \<bar>sin t - sin t\<bar> \<le> 1 / 100" by simp
  then show "\<exists>c d u. exact_cos (Fin t) = Fin c \<and> exact_sin (Fin t) = Fin d \<and>
      \<bar>c - cos u\<bar> \<le> 1 / 100 \<and> \<bar>d - sin u\<bar> \<le> 1 / 100" by blast
qed

lemma libm_accurate_rounded:
  "libm_accurate (\<lambda>a. case a of Fin t \<Rightarrow> Fin (f32 (cos t)) | _ \<Rightarrow> NaN)
     (\<lambda>a. case a of Fin t \<Rightarrow> Fin (f32 (sin t)) | _ \<Rightarrow> NaN)"
  unfolding libm_accurate_def
proof
  fix t :: real
  have "\<bar>f32 (cos t) - cos t\<bar> \<le> 1 / 100" by (rule f32_error_unit) simp
  moreover have "\<bar>f32 (sin t) - sin t\<bar> \<le> 1 / 100" by (rule f32_error_unit) simp
  ultimately show "\<exists>c d u. (case Fin t of Fin t \<Rightarrow> Fin (f32 (cos t)) | _ \<Rightarrow> NaN) = Fin c \<and>
      (case Fin t of Fin t \<Rightarrow> Fin (f32 (sin t)) | _ \<Rightarrow> NaN) = Fin d \<and>
      \<bar>c - cos u\<bar> \<le> 1 / 100 \<and> \<bar>d - sin u\<bar> \<le> 1 / 100"
    by auto
qed


text \<open>
  The upper bound of the texture loop of \<^verbatim>\<open>render_sliver\<close> is finite for the wall heights
  that \<^verbatim>\<open>ray_cast\<close> passes.
\<close>

lemma texture_bound_finite:
  assumes "0 \<le> h" and "h \<le> 64"
  shows "\<exists>b. fsub (fadd (fdiv (Fin (of_int screen_height)) (Fin 2)) (fdiv (Fin h) (Fin 2))) (Fin 1)
     = Fin b"
proof -
  define a where "a = f32 (h / 2)"
  have h: "real_of_int 0 \<le> h / 2" "h / 2 \<le> real_of_int 32" using assms by simp_all
  have a: "real_of_int 0 \<le> a" "a \<le> real_of_int 32"
    unfolding a_def using f32_ge_int [OF h(1)] f32_le_int [OF h(2)] by simp_all
  have mid: "fdiv (Fin (of_int screen_height)) (Fin 2) = Fin 32"
    by (simp add: screen_height_def SCREEN_HEIGHT_def rnd_def f32_32)
  have half: "fdiv (Fin h) (Fin 2) = Fin a"
    unfolding a_def using assms rnd_small [of "h / 2"] by simp
  define z where "z = f32 (32 + a)"
  have s: "real_of_int 32 \<le> 32 + a" "32 + a \<le> real_of_int 64" using a by simp_all
  have z: "real_of_int 32 \<le> z" "z \<le> real_of_int 64"
    unfolding z_def using f32_ge_int [OF s(1)] f32_le_int [OF s(2)] by simp_all
  have sum: "fadd (Fin 32) (Fin a) = Fin z"
    unfolding z_def using a rnd_small [of "32 + a"] by simp
  have "fsub (Fin z) (Fin 1) = Fin (f32 (z - 1))"
    using z rnd_small [of "z - 1"] by (simp add: fsub_Fin)
  then show ?thesis unfolding mid half sum by blast
qed

section \<open>Ray caster: examples\<close>

text \<open>
  The concrete scan used below: from \<open>(8.96875, 5.5)\<close> on the empty map along angle 0, the
  sample at wall height 64 (radius 1) is inside the map and the one at wall height 62
  lands on \<open>x = 10.001\<close>, outside it. With the bearing 45, angle 0 is the angle of column 0.
\<close>

lemma scan_exhausted:
  assumes "find (\<lambda>h. is_hit cs sn theta h s) (heights wh) = None"
  shows "samples (scan cs sn sliver theta wh s) = samples s @ map (\<lambda>h. (sliver, h, radius h)) (heights wh)"
    and "ray_d (scan cs sn sliver theta wh s) = ray_d s"
    and "slivers (scan cs sn sliver theta wh s) = slivers s"
  using scan_samples [of cs sn sliver theta wh s] scan_ray_d [of cs sn sliver theta wh s]
    scan_slivers [of cs sn sliver theta wh s] assms
  by (simp_all add: upto_first_find)

lemma decreasing_distinct: "sorted_wrt (>) (xs :: real list) \<Longrightarrow> distinct xs"
  by (induction xs) auto

lemma heights_screen_start:
  "heights (of_int screen_height) = 64 # 62 # heights 60"
proof -
  have "heights 64 = 64 # heights (64 - 2)" by (rule heights_step) simp
  also have "heights (64 - 2) = 62 # heights (62 - 2)" by (subst heights_step) simp_all
  finally show ?thesis by (simp add: screen_height_def SCREEN_HEIGHT_def)
qed

lemma radius_62: "radius 62 = Fin (1082401 / 1048576)"
proof -
  have "f32 (32 / 31) = of_int 8659208 * 2 powi (0 - 23)"
    by (rule f32_eqI) (simp_all add: powi_eval)
  then have "f32 (32 / 31) = 1082401 / 1048576" by (simp add: powi_eval)
  then have "rnd (32 / 31) = Fin (1082401 / 1048576)" by (rule rnd_eval) simp
  then show ?thesis by (simp add: radius_eq)
qed

lemma f32_radius_62: "f32 (1082401 / 1048576) = 1082401 / 1048576"
  by (rule f32_exact_div [of _ 1082401 20]) simp_all

lemma f32_319_32: "f32 (319 / 32) = 319 / 32"
  by (rule f32_exact_div [of _ 319 5]) simp_all

lemma f32_edge_hit: "f32 (10486817 / 1048576) = 10486817 / 1048576"
  by (rule f32_exact_div [of _ 10486817 20]) simp_all

lemma radians_0: "fdiv (fmul (Fin 0) PI) (Fin 180) = Fin 0"
  by (simp add: PI_eq)

lemma ray_along_x:
  "ray_x exact_cos (Fin 0) h s = fadd (player_x s) (fmul (radius h) (Fin 1))"
  "ray_y exact_sin (Fin 0) h s = fadd (player_y s) (fmul (radius h) (Fin 0))"
  by (simp_all add: ray_x_def ray_y_def radians_0)

lemma radius_64: "radius 64 = Fin 1"
  using radius_ends(1) by (simp add: screen_height_def SCREEN_HEIGHT_def)

lemma near_edge_first_sample:
  "\<not> is_hit exact_cos exact_sin (Fin 0) 64
       (initial_state\<lparr>player_x := Fin (287 / 32), player_bearing := Fin 45\<rparr>)"
  by (simp add: is_hit_iff ray_along_x radius_64 initial_position outside_map_def rnd_def f32_1
      f32_319_32 f32_11_2 MAP_X_DIM_def MAP_Y_DIM_def)
    (simp add: initial_state_def)

lemma near_edge_second_sample:
  "is_hit exact_cos exact_sin (Fin 0) 62
       (initial_state\<lparr>player_x := Fin (287 / 32), player_bearing := Fin 45\<rparr>)"
  by (simp add: is_hit_iff ray_along_x initial_position outside_map_def radius_62 rnd_def f32_radius_62
      f32_edge_hit f32_11_2 MAP_X_DIM_def MAP_Y_DIM_def)

lemma near_edge_find:
  "find (\<lambda>h. is_hit exact_cos exact_sin (Fin 0) h
        (initial_state\<lparr>player_x := Fin (287 / 32), player_bearing := Fin 45\<rparr>))
     (heights (of_int screen_height)) = Some 62"
  by (simp add: heights_screen_start near_edge_first_sample near_edge_second_sample)

lemma near_edge_takeWhile:
  "takeWhile (\<lambda>h. \<not> is_hit exact_cos exact_sin (Fin 0) h
        (initial_state\<lparr>player_x := Fin (287 / 32), player_bearing := Fin 45\<rparr>))
     (heights (of_int screen_height)) = [64]"
  by (simp add: heights_screen_start near_edge_first_sample near_edge_second_sample)

lemma near_edge_fields:
  "samples (initial_state\<lparr>player_x := Fin (287 / 32), player_bearing := Fin 45\<rparr>) = []"
  "slivers (initial_state\<lparr>player_x := Fin (287 / 32), player_bearing := Fin 45\<rparr>) = []"
  "ray_d (initial_state\<lparr>player_x := Fin (287 / 32), player_bearing := Fin 45\<rparr>) = Map.empty"
  by (simp_all add: initial_state_def)

lemma near_edge_first_theta:
  "first_theta (initial_state\<lparr>player_x := Fin (287 / 32), player_bearing := Fin 45\<rparr>) = Fin 0"
  by (simp add: first_theta_eq)

lemma near_edge_column_hit:
  "column_hit exact_cos exact_sin
     (initial_state\<lparr>player_x := Fin (287 / 32), player_bearing := Fin 45\<rparr>) 0 = Some 62"
  by (simp add: column_hit_def near_edge_first_theta near_edge_find)

lemma columns_first_sample:
  assumes "sliver < NUM_SLIVERS"
  shows "\<exists>rest. samples (columns cs sn sliver theta s) =
     samples s @ (sliver, of_int screen_height, radius (of_int screen_height)) # rest"
proof -
  have h: "heights (of_int screen_height) = of_int screen_height # heights (of_int screen_height - 2)"
    by (rule heights_step) (simp add: screen_height_def SCREEN_HEIGHT_def)
  have "\<exists>tl. upto_first (\<lambda>h. is_hit cs sn theta h s) (heights (of_int screen_height))
      = of_int screen_height # tl"
    unfolding h by simp
  then obtain tl where "samples (scan cs sn sliver theta (of_int screen_height) s) = samples s @
     (sliver, of_int screen_height, radius (of_int screen_height)) # map (\<lambda>h. (sliver, h, radius h)) tl"
    unfolding scan_samples by auto
  moreover obtain new where "samples (columns cs sn sliver theta s)
      = samples (scan cs sn sliver theta (of_int screen_height) s) @ new"
    unfolding columns_step [OF assms] using columns_samples by blast
  ultimately show ?thesis by simp
qed

lemma ray_cast_reads_in_map:
  "\<exists>rs. map_reads (ray_cast cs sn s) = map_reads s @ rs \<and> (\<forall>p\<in>set rs. in_map p)"
  unfolding ray_cast_def Let_def
  using columns_map_reads [of cs sn 0 "fsub (player_bearing s) (fdiv FOV (Fin 2))" "s\<lparr>ray_d := Map.empty\<rparr>"]
  by simp

text \<open>
  The bearing \<open>2^127\<close>, a binary32 value, on the empty map: \<^verbatim>\<open>theta\<close> is \<open>2^127\<close> in every
  column (45 and \<open>theta_inc\<close> are far below its last bit), \<^verbatim>\<open>theta * PI\<close> overflows to
  plus infinity, the cosine and the sine of infinity are NaN, and so are \<^verbatim>\<open>x\<close> and
  \<^verbatim>\<open>y\<close>: the four comparisons are false, the cell read is 0 (every cell of this map is,
  whatever index the cast of NaN gives), and no sample is a hit.
\<close>

lemma f32_2_127: "f32 (2 ^ 127) = 2 ^ 127"
  using f32_exact [of "2 ^ 127" 1 127] by simp

lemma big_minus_45: "f32 (2 ^ 127 - 45) = 2 ^ 127"
proof -
  have "f32 (2 ^ 127 - 45) = of_int 16777216 * 2 powi (126 - 23)"
    by (rule f32_eqI) (simp_all add: powi_eval)
  then show ?thesis by (simp add: powi_eval)
qed

lemma big_plus_inc: "f32 (2 ^ 127 + 45 / 64) = 2 ^ 127"
proof -
  have "f32 (2 ^ 127 + 45 / 64) = of_int 8388608 * 2 powi (127 - 23)"
    by (rule f32_eqI) (simp_all add: powi_eval)
  then show ?thesis by (simp add: powi_eval)
qed

lemma big_times_pi: "f32 (2 ^ 127 * (13176795 / 4194304)) = 13176795 * 2 ^ 105"
proof -
  have "(2::real) ^ 127 * (13176795 / 4194304) = of_int 13176795 * 2 powi 105"
    by (simp add: powi_eval)
  then have "f32 (2 ^ 127 * (13176795 / 4194304)) = of_int 13176795 * 2 powi 105"
    using f32_exact [of "2 ^ 127 * (13176795 / 4194304)" 13176795 105] by simp
  then show ?thesis by (simp add: powi_eval)
qed

lemma big_first_theta:
  "first_theta (initial_state\<lparr>player_bearing := Fin (2 ^ 127)\<rparr>) = Fin (2 ^ 127)"
proof -
  have "rnd (2 ^ 127 - 45) = Fin (2 ^ 127)"
    using big_minus_45 by (rule rnd_eval) simp
  then show ?thesis by (simp add: first_theta_eq)
qed

lemma big_column_theta: "column_theta (Fin (2 ^ 127)) j = Fin (2 ^ 127)"
proof (induction j)
  case 0
  show ?case by simp
next
  case (Suc j)
  have "rnd (2 ^ 127 + 45 / 64) = Fin (2 ^ 127)"
    using big_plus_inc by (rule rnd_eval) simp
  then show ?case unfolding column_theta.simps Suc.IH theta_inc_eq fadd.simps .
qed

lemma big_radians: "fdiv (fmul (Fin (2 ^ 127)) PI) (Fin 180) = PInf"
proof -
  have "rnd (2 ^ 127 * (13176795 / 4194304)) = PInf"
    unfolding rnd_def Let_def big_times_pi by simp
  then show ?thesis by (simp add: PI_eq)
qed

lemma fmul_NaN: "fmul a NaN = NaN"
  by (cases a) simp_all

lemma fadd_NaN: "fadd a NaN = NaN"
  by (cases a) simp_all

lemma big_no_hit:
  "\<not> is_hit exact_cos exact_sin (Fin (2 ^ 127)) h (initial_state\<lparr>player_bearing := Fin (2 ^ 127)\<rparr>)"
  unfolding is_hit_iff ray_x_def ray_y_def big_radians
  by (simp add: fmul_NaN fadd_NaN outside_map_def initial_state_def)

lemma big_column_hit:
  "column_hit exact_cos exact_sin (initial_state\<lparr>player_bearing := Fin (2 ^ 127)\<rparr>) j = None"
  unfolding column_hit_def big_first_theta big_column_theta find_None_iff
  using big_no_hit by blast

lemma big_slivers:
  "slivers (ray_cast exact_cos exact_sin (initial_state\<lparr>player_bearing := Fin (2 ^ 127)\<rparr>)) = []"
  using ray_cast_slivers [of exact_cos exact_sin "initial_state\<lparr>player_bearing := Fin (2 ^ 127)\<rparr>"]
  unfolding big_column_hit by (simp add: initial_state_def)

lemma is_f32_2_127: "is_f32 (2 ^ 127)"
  unfolding is_f32_def using f32_2_127 by simp

section \<open>Ray caster: properties\<close>

lemma column_hit_Some:
  assumes "column_hit cs sn s j = Some h"
  shows "h \<in> set (heights (of_int screen_height))"
    and "is_hit cs sn (column_theta (first_theta s) j) h s"
  using assms unfolding column_hit_def by (auto simp: find_Some_iff)

lemma concat_all_hit:
  assumes "\<And>j. j < n \<Longrightarrow> hit j \<noteq> None"
  shows "concat (map (\<lambda>j. case hit j of None \<Rightarrow> [] | Some h \<Rightarrow> [g j h]) [0..<n])
     = map (\<lambda>j. g j (the (hit j))) [0..<n]"
proof -
  have eq: "map (\<lambda>j. case hit j of None \<Rightarrow> [] | Some h \<Rightarrow> [g j h]) [0..<n]
      = map (\<lambda>j. [g j (the (hit j))]) [0..<n]"
    by (rule map_cong) (use assms in \<open>auto split: option.splits\<close>)
  show ?thesis unfolding eq by simp
qed

lemma column_key:
  "e \<in> set (case hit of None \<Rightarrow> [] | Some h \<Rightarrow> [(int j, Fin h, c)]) \<Longrightarrow> fst e = int j"
  by (cases hit) simp_all


lemma num_slivers: "nat NUM_SLIVERS = 128" "NUM_SLIVERS = 128"
  by (simp_all add: NUM_SLIVERS_def screen_width_def SCREEN_WIDTH_def)

text \<open>
  Claim C2, as amended. For every pose and map, a column of \<^verbatim>\<open>ray_cast\<close> whose scan runs
  out without a hit yields no result at all: no sliver is rendered for it and its entry
  of \<^verbatim>\<open>d\<close> is not written. When the position is finite and the bearing is at most \<open>2^126\<close>
  in magnitude (and the C library's cosine and sine are accurate) no scan runs out:
  \<^verbatim>\<open>ray_cast\<close> renders exactly \<open>NUM_SLIVERS\<close> slivers, one per column index
  \<open>0 .. NUM_SLIVERS - 1\<close> in that order, each with a wall height in \<open>[0, screen_height]\<close>.
\<close>

theorem ray_cast_results:
  "\<exists>new. slivers (ray_cast cs sn s) = slivers s @ new \<and>
     (\<forall>j<nat NUM_SLIVERS. column_hit cs sn s j = None \<longrightarrow>
        filter (\<lambda>e. fst e = int j) new = [] \<and> ray_d (ray_cast cs sn s) (int j) = None) \<and>
     (libm_accurate cs sn \<and> player_x s = Fin px \<and> player_y s = Fin py \<and>
      player_bearing s = Fin b \<and> \<bar>b\<bar> \<le> 2 ^ 126 \<longrightarrow>
        length new = nat NUM_SLIVERS \<and> map fst new = [0..NUM_SLIVERS - 1] \<and>
        (\<forall>e\<in>set new. \<exists>h. fst (snd e) = Fin h \<and> 0 \<le> h \<and> h \<le> of_int screen_height) \<and>
        (\<forall>j<nat NUM_SLIVERS. column_hit cs sn s j \<noteq> None))"
proof -
  obtain cf where cf: "slivers (ray_cast cs sn s) = slivers s @
     concat (map (\<lambda>j. case column_hit cs sn s j of
                       None \<Rightarrow> [] | Some h \<Rightarrow> [(int j, Fin h, cf j)])
       [0..<nat NUM_SLIVERS])"
    using ray_cast_slivers by blast
  define F where "F = (\<lambda>j. case column_hit cs sn s j of
      None \<Rightarrow> [] | Some h \<Rightarrow> [(int j, Fin h, cf j)])"
  define new where "new = concat (map F [0..<nat NUM_SLIVERS])"
  have eq: "slivers (ray_cast cs sn s) = slivers s @ new"
    unfolding new_def F_def by (rule cf)
  have key: "\<And>j e. e \<in> set (F j) \<Longrightarrow> fst e = int j"
    unfolding F_def by (rule column_key)
  have none: "\<forall>j<nat NUM_SLIVERS. column_hit cs sn s j = None \<longrightarrow>
        filter (\<lambda>e. fst e = int j) new = [] \<and> ray_d (ray_cast cs sn s) (int j) = None"
  proof (intro allI impI)
    fix j assume j: "j < nat NUM_SLIVERS" and n: "column_hit cs sn s j = None"
    have "filter (\<lambda>e. fst e = int j) new = F j"
      unfolding new_def using key j by (rule filter_concat_column)
    also have "F j = []" by (simp add: F_def n)
    finally have "filter (\<lambda>e. fst e = int j) new = []" .
    moreover have "ray_d (ray_cast cs sn s) (int j) = None"
      by (simp add: ray_cast_ray_d [OF j] n)
    ultimately show "filter (\<lambda>e. fst e = int j) new = [] \<and> ray_d (ray_cast cs sn s) (int j) = None"
      by simp
  qed
  have all: "length new = nat NUM_SLIVERS \<and> map fst new = [0..NUM_SLIVERS - 1] \<and>
        (\<forall>e\<in>set new. \<exists>h. fst (snd e) = Fin h \<and> 0 \<le> h \<and> h \<le> of_int screen_height) \<and>
        (\<forall>j<nat NUM_SLIVERS. column_hit cs sn s j \<noteq> None)"
    if hyp: "libm_accurate cs sn" "player_x s = Fin px" "player_y s = Fin py"
      "player_bearing s = Fin b" "\<bar>b\<bar> \<le> 2 ^ 126"
  proof -
    have hits: "\<And>j. j < nat NUM_SLIVERS \<Longrightarrow> column_hit cs sn s j \<noteq> None"
      using hyp by (rule every_column_hits)
    have new: "new = map (\<lambda>j. (int j, Fin (the (column_hit cs sn s j)), cf j)) [0..<nat NUM_SLIVERS]"
      unfolding new_def F_def using hits by (rule concat_all_hit)
    have len: "length new = nat NUM_SLIVERS" by (simp add: new)
    have "map fst new = map int [0..<nat NUM_SLIVERS]" by (simp add: new comp_def)
    then have idx: "map fst new = [0..NUM_SLIVERS - 1]"
      by (simp add: map_int_upt num_slivers)
    have "\<forall>e\<in>set new. \<exists>h. fst (snd e) = Fin h \<and> 0 \<le> h \<and> h \<le> of_int screen_height"
    proof
      fix e assume "e \<in> set new"
      then obtain j where j: "j < nat NUM_SLIVERS"
        and e: "e = (int j, Fin (the (column_hit cs sn s j)), cf j)"
        unfolding new by auto
      from hits [OF j] obtain h where h: "column_hit cs sn s j = Some h" by auto
      from heights_screen_props(1,2) [OF column_hit_Some(1) [OF h]]
      show "\<exists>h. fst (snd e) = Fin h \<and> 0 \<le> h \<and> h \<le> of_int screen_height"
        by (simp add: e h)
    qed
    with len idx hits show ?thesis by blast
  qed
  from eq none all show ?thesis by blast
qed

text \<open>
  The initial state, with the exact cosine and sine: 128 slivers. With the bearing
  \<open>2^127\<close>, the scan of column 0 runs out and \<^verbatim>\<open>d[0]\<close> stays unset.
\<close>

theorem ray_cast_results_witness:
  "libm_accurate exact_cos exact_sin \<and>
   player_x initial_state = Fin (11 / 2) \<and> player_y initial_state = Fin (11 / 2) \<and>
   player_bearing initial_state = Fin 270 \<and> \<bar>270 :: real\<bar> \<le> 2 ^ 126 \<and>
   (0::nat) < nat NUM_SLIVERS \<and>
   length (slivers (ray_cast exact_cos exact_sin initial_state)) = 128 \<and>
   map fst (slivers (ray_cast exact_cos exact_sin initial_state)) = [0..127] \<and>
   column_hit exact_cos exact_sin (initial_state\<lparr>player_bearing := Fin (2 ^ 127)\<rparr>) 0 = None \<and>
   ray_d (ray_cast exact_cos exact_sin (initial_state\<lparr>player_bearing := Fin (2 ^ 127)\<rparr>)) 0 = None"
proof -
  have b: "player_bearing initial_state = Fin 270" "slivers initial_state = []"
    by (simp_all add: initial_state_def)
  from ray_cast_results [of exact_cos exact_sin initial_state "11 / 2" "11 / 2" 270]
  have "length (slivers (ray_cast exact_cos exact_sin initial_state)) = 128 \<and>
     map fst (slivers (ray_cast exact_cos exact_sin initial_state)) = [0..127]"
    using libm_accurate_exact initial_position b by (auto simp: num_slivers)
  moreover have "ray_d (ray_cast exact_cos exact_sin (initial_state\<lparr>player_bearing := Fin (2 ^ 127)\<rparr>)) 0 = None"
  proof -
    have z: "(0::nat) < nat NUM_SLIVERS" by (simp add: num_slivers)
    from ray_cast_results [of exact_cos exact_sin "initial_state\<lparr>player_bearing := Fin (2 ^ 127)\<rparr>" 0 0 0]
    have "\<forall>j<nat NUM_SLIVERS.
        column_hit exact_cos exact_sin (initial_state\<lparr>player_bearing := Fin (2 ^ 127)\<rparr>) j = None \<longrightarrow>
        ray_d (ray_cast exact_cos exact_sin (initial_state\<lparr>player_bearing := Fin (2 ^ 127)\<rparr>)) (int j) = None"
      by blast
    with z big_column_hit [of 0]
    have "ray_d (ray_cast exact_cos exact_sin (initial_state\<lparr>player_bearing := Fin (2 ^ 127)\<rparr>)) (int 0) = None"
      by blast
    then show ?thesis by (simp only: int_ops)
  qed
  moreover have "\<bar>270 :: real\<bar> \<le> 2 ^ 126" "(0::nat) < nat NUM_SLIVERS"
    by (simp_all add: num_slivers)
  ultimately show ?thesis
    using libm_accurate_exact initial_position b(1) big_column_hit [of 0] by blast
qed

text \<open>
  Claim C2 as stated fails. With the bearing \<open>2^127\<close> on the empty map every scan runs
  out (lemma \<open>big_column_hit\<close>) and \<^verbatim>\<open>ray_cast\<close> renders no sliver: there are not
  \<open>NUM_SLIVERS\<close> results, and a column whose scan runs out has no result with wall
  height 0.
\<close>

theorem ray_cast_results_counterexample:
  "is_f32 (2 ^ 127) \<and> libm_accurate exact_cos exact_sin \<and>
   column_hit exact_cos exact_sin (initial_state\<lparr>player_bearing := Fin (2 ^ 127)\<rparr>) 0 = None \<and>
   slivers (ray_cast exact_cos exact_sin (initial_state\<lparr>player_bearing := Fin (2 ^ 127)\<rparr>)) = [] \<and>
   length (slivers (ray_cast exact_cos exact_sin (initial_state\<lparr>player_bearing := Fin (2 ^ 127)\<rparr>)))
     \<noteq> nat NUM_SLIVERS"
proof -
  have sl: "slivers (ray_cast exact_cos exact_sin (initial_state\<lparr>player_bearing := Fin (2 ^ 127)\<rparr>)) = []"
    by (rule big_slivers)
  have "length (slivers (ray_cast exact_cos exact_sin (initial_state\<lparr>player_bearing := Fin (2 ^ 127)\<rparr>)))
     \<noteq> nat NUM_SLIVERS"
    unfolding sl by (simp add: num_slivers)
  with is_f32_2_127 libm_accurate_exact big_column_hit [of 0] sl show ?thesis by blast
qed

text \<open>
  Claim C4: in the scan of one column, started at \<open>screen_height\<close>, the wall heights of
  successive iterations strictly decrease, the radii \<open>(k * screen_height) / wall_height\<close>
  (with \<open>k = 1\<close>, rounded as the sketch computes them) are finite and never decrease, no
  two iterations share a wall height, and there are at most \<open>screen_height / 2\<close>
  iterations.
\<close>

theorem scan_radius_monotone:
  "\<exists>new. samples (scan cs sn sliver theta (of_int screen_height) s) = samples s @ new \<and>
     (\<forall>e\<in>set new. snd (snd e) = fdiv (fmul (Fin 1) (Fin (of_int screen_height))) (Fin (fst (snd e))) \<and>
        (\<exists>r. snd (snd e) = Fin r)) \<and>
     sorted_wrt (\<lambda>a b. fst (snd a) > fst (snd b)) new \<and>
     sorted_wrt (\<lambda>a b. fle (snd (snd a)) (snd (snd b))) new \<and>
     distinct (map (\<lambda>e. fst (snd e)) new) \<and>
     length new \<le> nat (screen_height div 2)"
proof -
  define hs where "hs = heights (of_int screen_height)"
  define tr where "tr = upto_first (\<lambda>h. is_hit cs sn theta h s) hs"
  define new where "new = map (\<lambda>h. (sliver, h, radius h)) tr"
  have eq: "samples (scan cs sn sliver theta (of_int screen_height) s) = samples s @ new"
    unfolding new_def tr_def hs_def by (rule scan_samples)
  obtain ys where ys: "hs = tr @ ys"
    unfolding tr_def using upto_first_prefix by blast
  have dec: "sorted_wrt (>) tr"
    using heights_decreasing [of "of_int screen_height"] unfolding hs_def [symmetric] ys
    by (simp add: sorted_wrt_append)
  have pos: "\<forall>h\<in>set tr. 0 < h"
    using heights_bounds [of _ "of_int screen_height"] unfolding hs_def [symmetric] ys by auto
  have big: "\<forall>h\<in>set tr. 1 \<le> h"
    using heights_screen_props(1) unfolding hs_def [symmetric] ys by fastforce
  have "length tr \<le> length hs" unfolding ys by simp
  then have len: "length new \<le> nat (screen_height div 2)"
    using heights_screen_length
    by (simp add: new_def hs_def screen_height_def SCREEN_HEIGHT_def)
  have 1: "\<forall>e\<in>set new. snd (snd e) = fdiv (fmul (Fin 1) (Fin (of_int screen_height))) (Fin (fst (snd e))) \<and>
        (\<exists>r. snd (snd e) = Fin r)"
  proof
    fix e assume "e \<in> set new"
    then obtain h where h: "h \<in> set tr" "e = (sliver, h, radius h)"
      unfolding new_def by auto
    have "radius h = Fin (f32 (64 / h))"
      using big h(1) by (intro radius_finite) simp
    then show "snd (snd e) = fdiv (fmul (Fin 1) (Fin (of_int screen_height))) (Fin (fst (snd e))) \<and>
        (\<exists>r. snd (snd e) = Fin r)"
      unfolding h(2) by (simp add: radius_def)
  qed
  have 2: "sorted_wrt (\<lambda>a b. fst (snd a) > fst (snd b)) new"
    using dec by (simp add: new_def sorted_wrt_map)
  have 3: "sorted_wrt (\<lambda>a b. fle (snd (snd a)) (snd (snd b))) new"
    using radius_sorted [OF dec pos] by (simp add: new_def sorted_wrt_map)
  have "distinct tr"
    using dec by (rule decreasing_distinct)
  then have 4: "distinct (map (\<lambda>e. fst (snd e)) new)"
    by (simp add: new_def comp_def)
  from eq 1 2 3 4 len show ?thesis by blast
qed

text \<open>
  The scan of the example: two iterations, radii \<open>1\<close> and \<open>1.0322...\<close>.
\<close>

theorem scan_radius_monotone_witness:
  "samples (scan exact_cos exact_sin 0 (Fin 0) (of_int screen_height)
       (initial_state\<lparr>player_x := Fin (287 / 32), player_bearing := Fin 45\<rparr>))
     = [(0, 64, Fin 1), (0, 62, Fin (1082401 / 1048576))] \<and>
   sorted_wrt (\<lambda>a b. fle (snd (snd a)) (snd (snd b)))
     (samples (scan exact_cos exact_sin 0 (Fin 0) (of_int screen_height)
       (initial_state\<lparr>player_x := Fin (287 / 32), player_bearing := Fin 45\<rparr>))) \<and>
   length (samples (scan exact_cos exact_sin 0 (Fin 0) (of_int screen_height)
       (initial_state\<lparr>player_x := Fin (287 / 32), player_bearing := Fin 45\<rparr>)))
     \<le> 32"
proof -
  have eq: "samples (scan exact_cos exact_sin 0 (Fin 0) (of_int screen_height)
       (initial_state\<lparr>player_x := Fin (287 / 32), player_bearing := Fin 45\<rparr>))
     = [(0, 64, Fin 1), (0, 62, Fin (1082401 / 1048576))]"
    unfolding scan_samples upto_first_find near_edge_find near_edge_takeWhile near_edge_fields
    by (simp add: radius_62 radius_64)
  from scan_radius_monotone [of exact_cos exact_sin 0 "Fin 0"
      "initial_state\<lparr>player_x := Fin (287 / 32), player_bearing := Fin 45\<rparr>"]
  have "sorted_wrt (\<lambda>a b. fle (snd (snd a)) (snd (snd b)))
     (samples (scan exact_cos exact_sin 0 (Fin 0) (of_int screen_height)
       (initial_state\<lparr>player_x := Fin (287 / 32), player_bearing := Fin 45\<rparr>)))"
    unfolding near_edge_fields by auto
  with eq show ?thesis by simp
qed



text \<open>
  Claim C6: every iteration of the scan loop during \<^verbatim>\<open>ray_cast\<close> has a wall height
  greater than 0, in fact between 2 and \<open>screen_height\<close>, and the radius it computes is
  the quotient by that wall height. The loop variable runs through \<open>64, 62, ..., 2\<close>
  (lemma \<open>heights_screen\<close>) and reaches 0 exactly, where the loop ends.
\<close>

theorem scan_loop_excludes_zero:
  "\<exists>new. samples (ray_cast cs sn s) = samples s @ new \<and>
     (\<forall>e\<in>set new. 0 < fst (snd e) \<and> 2 \<le> fst (snd e) \<and> fst (snd e) \<le> of_int screen_height \<and>
        snd (snd e) = fdiv (fmul (Fin 1) (Fin (of_int screen_height))) (Fin (fst (snd e))))"
proof -
  obtain new where new: "samples (ray_cast cs sn s) = samples s @ new"
    "\<forall>e\<in>set new. fst (snd e) \<in> set (heights (of_int screen_height)) \<and>
        snd (snd e) = radius (fst (snd e))"
    unfolding ray_cast_def Let_def
    using columns_samples [of cs sn 0 _ "s\<lparr>ray_d := Map.empty\<rparr>"] by auto
  have "\<forall>e\<in>set new. 0 < fst (snd e) \<and> 2 \<le> fst (snd e) \<and> fst (snd e) \<le> of_int screen_height \<and>
        snd (snd e) = fdiv (fmul (Fin 1) (Fin (of_int screen_height))) (Fin (fst (snd e)))"
  proof
    fix e assume "e \<in> set new"
    with new(2) have h: "fst (snd e) \<in> set (heights (of_int screen_height))"
      and r: "snd (snd e) = radius (fst (snd e))" by simp_all
    from heights_screen_props(1,2) [OF h] r
    show "0 < fst (snd e) \<and> 2 \<le> fst (snd e) \<and> fst (snd e) \<le> of_int screen_height \<and>
        snd (snd e) = fdiv (fmul (Fin 1) (Fin (of_int screen_height))) (Fin (fst (snd e)))"
      by (simp add: radius_def)
  qed
  with new(1) show ?thesis by blast
qed

text \<open>
  The first iteration of \<^verbatim>\<open>ray_cast\<close> from the initial state: column 0, wall height 64.
\<close>

theorem scan_loop_excludes_zero_witness:
  "samples (ray_cast exact_cos exact_sin initial_state) \<noteq> [] \<and>
   hd (samples (ray_cast exact_cos exact_sin initial_state)) = (0, 64, Fin 1) \<and>
   0 < fst (snd (hd (samples (ray_cast exact_cos exact_sin initial_state))))"
proof -
  obtain rest where rest: "samples (ray_cast exact_cos exact_sin initial_state) = (0, 64, Fin 1) # rest"
    unfolding ray_cast_def Let_def
    using columns_first_sample [of 0 exact_cos exact_sin _ "initial_state\<lparr>ray_d := Map.empty\<rparr>"] radius_ends(1)
    by (auto simp: NUM_SLIVERS_def screen_width_def SCREEN_WIDTH_def screen_height_def
        SCREEN_HEIGHT_def initial_state_def)
  from scan_loop_excludes_zero [of exact_cos exact_sin initial_state]
  obtain new where "samples (ray_cast exact_cos exact_sin initial_state) = samples initial_state @ new"
    "\<forall>e\<in>set new. 0 < fst (snd e)" by blast
  then have "\<forall>e\<in>set (samples (ray_cast exact_cos exact_sin initial_state)). 0 < fst (snd e)"
    by (simp add: initial_state_def)
  then show ?thesis unfolding rest by simp
qed

text \<open>
  Claim C9: \<^verbatim>\<open>ray_cast\<close> leaves every cell of \<open>my_map\<close> and the pose \<open>player_x\<close>,
  \<open>player_y\<close>, \<open>player_bearing\<close> as they were.
\<close>

theorem ray_cast_frame:
  "my_map (ray_cast cs sn s) = my_map s \<and>
   player_x (ray_cast cs sn s) = player_x s \<and>
   player_y (ray_cast cs sn s) = player_y s \<and>
   player_bearing (ray_cast cs sn s) = player_bearing s"
  by (simp add: ray_cast_def Let_def columns_frame)

text \<open>
  The initial state.
\<close>

theorem ray_cast_frame_witness:
  "my_map (ray_cast exact_cos exact_sin initial_state) 5 5 = 0 \<and>
   player_x (ray_cast exact_cos exact_sin initial_state) = Fin (11 / 2) \<and>
   player_y (ray_cast exact_cos exact_sin initial_state) = Fin (11 / 2) \<and>
   player_bearing (ray_cast exact_cos exact_sin initial_state) = Fin 270"
  using ray_cast_frame [of exact_cos exact_sin initial_state]
  by (simp add: initial_position) (simp add: initial_state_def)

text \<open>
  Claim C10, as amended: for a player strictly inside \<open>(0, MAP_X_DIM) \<times> (0, MAP_Y_DIM)\<close>
  and a bearing of at most \<open>2^126\<close> in magnitude (and an accurate cosine and sine), in
  every column of \<^verbatim>\<open>ray_cast\<close> the point sampled at wall height 2 (radius
  \<open>k * screen_height / 2 = 32\<close>) is outside the map, so every column's scan ends in a hit,
  and \<^verbatim>\<open>ray_cast\<close> renders one sliver per column, each with a wall height of at least 2.
\<close>

theorem ray_cast_always_hits:
  assumes "libm_accurate cs sn"
    and "player_x s = Fin px" "0 < px" "px < of_int MAP_X_DIM"
    and "player_y s = Fin py" "0 < py" "py < of_int MAP_Y_DIM"
    and "player_bearing s = Fin b" "\<bar>b\<bar> \<le> 2 ^ 126"
  shows "(\<forall>j<nat NUM_SLIVERS.
       outside_map (ray_x cs (column_theta (first_theta s) j) 2 s)
         (ray_y sn (column_theta (first_theta s) j) 2 s)) \<and>
    radius 2 = Fin (1 * of_int screen_height / 2) \<and>
    (\<forall>j<nat NUM_SLIVERS. column_hit cs sn s j \<noteq> None) \<and>
    (\<exists>new. slivers (ray_cast cs sn s) = slivers s @ new \<and>
      map fst new = [0..NUM_SLIVERS - 1] \<and>
      (\<forall>e\<in>set new. \<exists>h. fst (snd e) = Fin h \<and> 2 \<le> h))"
proof -
  have far: "outside_map (ray_x cs (column_theta (first_theta s) j) 2 s)
         (ray_y sn (column_theta (first_theta s) j) 2 s)" if "j < nat NUM_SLIVERS" for j
  proof -
    have "j \<le> 128" using that by (simp add: num_slivers)
    with assms(8,9) obtain t where t: "column_theta (first_theta s) j = Fin t"
      "\<bar>t\<bar> \<le> 8388737 * 2 ^ 103"
      by (rule column_theta_in_range)
    show ?thesis
      unfolding t(1)
      using assms(1,2,3) _ assms(5,6) _ t(2)
      by (rule far_sample_outside) (use assms(4,7) in \<open>simp_all add: MAP_X_DIM_def MAP_Y_DIM_def\<close>)
  qed
  have hits: "column_hit cs sn s j \<noteq> None" if "j < nat NUM_SLIVERS" for j
    unfolding column_hit_def
    using heights_screen_ends(2) is_hit_outside [OF far [OF that]] by (rule find_hit_exists)
  obtain cf where cf: "slivers (ray_cast cs sn s) = slivers s @
     concat (map (\<lambda>j. case column_hit cs sn s j of
                       None \<Rightarrow> [] | Some h \<Rightarrow> [(int j, Fin h, cf j)])
       [0..<nat NUM_SLIVERS])"
    using ray_cast_slivers by blast
  define new where "new = map (\<lambda>j. (int j, Fin (the (column_hit cs sn s j)), cf j)) [0..<nat NUM_SLIVERS]"
  have eq: "slivers (ray_cast cs sn s) = slivers s @ new"
    unfolding cf new_def using concat_all_hit [of "nat NUM_SLIVERS" "column_hit cs sn s"
        "\<lambda>j h. (int j, Fin h, cf j)"] hits by simp
  have "map fst new = map int [0..<nat NUM_SLIVERS]" by (simp add: new_def comp_def)
  then have idx: "map fst new = [0..NUM_SLIVERS - 1]"
    by (simp add: map_int_upt num_slivers)
  have low: "\<forall>e\<in>set new. \<exists>h. fst (snd e) = Fin h \<and> 2 \<le> h"
  proof
    fix e assume "e \<in> set new"
    then obtain j where j: "j < nat NUM_SLIVERS"
      and e: "e = (int j, Fin (the (column_hit cs sn s j)), cf j)"
      unfolding new_def by auto
    from hits [OF j] obtain h where h: "column_hit cs sn s j = Some h" by auto
    from heights_screen_props(1) [OF column_hit_Some(1) [OF h]]
    show "\<exists>h. fst (snd e) = Fin h \<and> 2 \<le> h"
      by (simp add: e h)
  qed
  have "radius 2 = Fin (1 * of_int screen_height / 2)"
    by (simp add: radius_ends screen_height_def SCREEN_HEIGHT_def)
  with far hits eq idx low show ?thesis by blast
qed

text \<open>
  The initial state: the player at \<open>(5.5, 5.5)\<close>, bearing 270.
\<close>

theorem ray_cast_always_hits_witness:
  "libm_accurate exact_cos exact_sin \<and>
   player_x initial_state = Fin (11 / 2) \<and> player_y initial_state = Fin (11 / 2) \<and>
   (0::real) < 11 / 2 \<and> (11 / 2 :: real) < of_int MAP_X_DIM \<and> (11 / 2 :: real) < of_int MAP_Y_DIM \<and>
   player_bearing initial_state = Fin 270 \<and> \<bar>270 :: real\<bar> \<le> 2 ^ 126 \<and>
   (0::nat) < nat NUM_SLIVERS \<and>
   outside_map (ray_x exact_cos (column_theta (first_theta initial_state) 0) 2 initial_state)
     (ray_y exact_sin (column_theta (first_theta initial_state) 0) 2 initial_state) \<and>
   column_hit exact_cos exact_sin initial_state 0 \<noteq> None \<and>
   map fst (slivers (ray_cast exact_cos exact_sin initial_state)) = [0..127]"
proof -
  have b: "player_bearing initial_state = Fin 270" "slivers initial_state = []"
    by (simp_all add: initial_state_def)
  have z: "(0::nat) < nat NUM_SLIVERS" by (simp add: num_slivers)
  from ray_cast_always_hits [OF libm_accurate_exact initial_position(1) _ _ initial_position(2) _ _ b(1)]
  have "(\<forall>j<nat NUM_SLIVERS.
       outside_map (ray_x exact_cos (column_theta (first_theta initial_state) j) 2 initial_state)
         (ray_y exact_sin (column_theta (first_theta initial_state) j) 2 initial_state)) \<and>
    (\<forall>j<nat NUM_SLIVERS. column_hit exact_cos exact_sin initial_state j \<noteq> None) \<and>
    map fst (slivers (ray_cast exact_cos exact_sin initial_state)) = [0..127]"
    by (auto simp: MAP_X_DIM_def MAP_Y_DIM_def b(2) num_slivers)
  moreover have "(0::real) < 11 / 2" "(11 / 2 :: real) < of_int MAP_X_DIM"
    "(11 / 2 :: real) < of_int MAP_Y_DIM" "\<bar>270 :: real\<bar> \<le> 2 ^ 126"
    by (simp_all add: MAP_X_DIM_def MAP_Y_DIM_def)
  ultimately show ?thesis
    using z libm_accurate_exact initial_position b(1) by blast
qed

text \<open>
  Claim C10 as stated fails: it speaks of every bearing. With the bearing \<open>2^127\<close> and
  the player at \<open>(5.5, 5.5)\<close> on the empty map, the point sampled at wall height 2 in
  column 0 is (NaN, NaN), which is not outside the map; the scan of the column runs out
  without a hit, and \<^verbatim>\<open>ray_cast\<close> renders no sliver.
\<close>

theorem ray_cast_always_hits_counterexample:
  "is_f32 (2 ^ 127) \<and> libm_accurate exact_cos exact_sin \<and>
   player_x (initial_state\<lparr>player_bearing := Fin (2 ^ 127)\<rparr>) = Fin (11 / 2) \<and>
   player_y (initial_state\<lparr>player_bearing := Fin (2 ^ 127)\<rparr>) = Fin (11 / 2) \<and>
   ray_x exact_cos (column_theta (first_theta (initial_state\<lparr>player_bearing := Fin (2 ^ 127)\<rparr>)) 0) 2
       (initial_state\<lparr>player_bearing := Fin (2 ^ 127)\<rparr>) = NaN \<and>
   ray_y exact_sin (column_theta (first_theta (initial_state\<lparr>player_bearing := Fin (2 ^ 127)\<rparr>)) 0) 2
       (initial_state\<lparr>player_bearing := Fin (2 ^ 127)\<rparr>) = NaN \<and>
   \<not> outside_map NaN NaN \<and>
   find (\<lambda>h. is_hit exact_cos exact_sin
          (column_theta (first_theta (initial_state\<lparr>player_bearing := Fin (2 ^ 127)\<rparr>)) 0) h
          (initial_state\<lparr>player_bearing := Fin (2 ^ 127)\<rparr>))
     (heights (of_int screen_height)) = None \<and>
   slivers (ray_cast exact_cos exact_sin (initial_state\<lparr>player_bearing := Fin (2 ^ 127)\<rparr>)) = []"
proof -
  define s where "s = initial_state\<lparr>player_bearing := Fin (2 ^ 127)\<rparr>"
  have th: "column_theta (first_theta s) 0 = Fin (2 ^ 127)"
    unfolding s_def column_theta.simps by (rule big_first_theta)
  have p: "player_x s = Fin (11 / 2)" "player_y s = Fin (11 / 2)"
    unfolding s_def using initial_position by simp_all
  have x: "ray_x exact_cos (column_theta (first_theta s) 0) 2 s = NaN"
    unfolding th ray_x_def big_radians by (simp add: fmul_NaN fadd_NaN)
  have y: "ray_y exact_sin (column_theta (first_theta s) 0) 2 s = NaN"
    unfolding th ray_y_def big_radians by (simp add: fmul_NaN fadd_NaN)
  have o: "\<not> outside_map NaN NaN" by (simp add: outside_map_def)
  have f: "find (\<lambda>h. is_hit exact_cos exact_sin (column_theta (first_theta s) 0) h s)
      (heights (of_int screen_height)) = None"
    using big_column_hit [of 0] unfolding column_hit_def s_def .
  have sl: "slivers (ray_cast exact_cos exact_sin s) = []"
    unfolding s_def by (rule big_slivers)
  from is_f32_2_127 libm_accurate_exact p x y o f sl show ?thesis
    unfolding s_def by blast
qed

end
